theory Spec2Isabelle
  imports Main "HOL-Library.Word" "HOL-Library.AList"
begin

unbundle bit_operations_syntax

section \<open>Data model of multi.c\<close>

text \<open>
  Pointers are modelled by references: a \<^verbatim>\<open>client *\<close> is a \<open>client_ref\<close>, a
  \<^verbatim>\<open>redisDb *\<close> is a \<open>db_ref\<close> (its position in \<^verbatim>\<open>server.db\<close>). The structures
  they point to live in the \<open>world\<close> record (\<open>client_of\<close>, \<open>db_of\<close>), which also holds the
  fields of the global \<^verbatim>\<open>server\<close> that multi.c reads or writes. The linked lists of
  adlist.h are HOL lists. Reference counts and the release of memory are not modelled.
\<close>

type_synonym client_ref = nat
type_synonym db_ref = nat

text \<open>A string object: \<open>obj_addr\<close> is the identity of the object, \<open>ptr\<close> its bytes.\<close>

record robj =
  obj_addr :: nat
  ptr :: string

record redisCommand =
  rc_name :: string
  rc_flags :: "32 word"

record multiCmd =
  mc_argv :: "robj list"
  mc_cmd :: redisCommand

text \<open>\<^verbatim>\<open>mstate.count\<close> is the length of \<open>commands\<close>; \<^verbatim>\<open>argc\<close> is the length of an argv.\<close>

record multiState =
  commands :: "multiCmd list"
  cmd_flags :: "32 word"

record watchedKey =
  wk_key :: robj
  wk_db :: db_ref

datatype reply =
    shared_ok
  | shared_execaborterr
  | shared_nullmultibulk
  | ReplyError string
  | ReplyMultiBulkLen nat
  | ReplyBulk string

record client =
  db :: db_ref
  argv :: "robj list"
  cmd :: redisCommand
  flags :: "32 word"
  mstate :: multiState
  watched_keys :: "watchedKey list"
  reply :: "reply list"

text \<open>
  A database: \<open>dict\<close> is the keyspace, \<open>db_watched_keys\<close> the dictionary from a watched
  key to the list of clients watching it (keys are compared by their bytes), \<open>db_id\<close> the
  field \<^verbatim>\<open>id\<close>.
\<close>

record redisDb =
  dict :: "string \<rightharpoonup> robj"
  db_watched_keys :: "(string \<times> client_ref list) list"
  db_id :: int

text \<open>One call of \<^verbatim>\<open>propagate(cmd, dbid, argv, argc, target)\<close>, as the sink receives it.\<close>

datatype propagated = Propagate redisCommand int "string list" "32 word"

datatype call_flags = CMD_CALL_NONE | CMD_CALL_FULL

record world =
  db_of :: "db_ref \<Rightarrow> redisDb"
  client_of :: "client_ref \<Rightarrow> client"
  clients :: "client_ref list"
  monitors :: "client_ref list"
  loading :: bool
  masterhost :: "string option"
  repl_slave_ro :: bool
  dirty :: "64 word"
  repl_backlog :: "string option"
  server_multiCommand :: redisCommand
  propagate_log :: "propagated list"
  monitor_feed :: "(int \<times> robj list) list"

datatype error = AssertionFailed | NullPointer

subsection \<open>Flag bits\<close>

text \<open>
  Modelled from the spec: the macros \<^verbatim>\<open>CLIENT_*\<close>, \<^verbatim>\<open>CMD_*\<close> and \<^verbatim>\<open>PROPAGATE_*\<close> are
  defined in server.h, which is not among the sources. The spec describes them as
  independent bits of a flag word; each is a distinct single bit here (at the position
  Redis 5.0 gives it), and the proofs use nothing else about them.
\<close>

definition CLIENT_MASTER :: "32 word" where
  "CLIENT_MASTER = push_bit 1 1"

definition CLIENT_MULTI :: "32 word" where
  "CLIENT_MULTI = push_bit 3 1"

definition CLIENT_DIRTY_CAS :: "32 word" where
  "CLIENT_DIRTY_CAS = push_bit 5 1"

definition CLIENT_DIRTY_EXEC :: "32 word" where
  "CLIENT_DIRTY_EXEC = push_bit 12 1"

definition CMD_WRITE :: "32 word" where
  "CMD_WRITE = push_bit 0 1"

definition CMD_READONLY :: "32 word" where
  "CMD_READONLY = push_bit 1 1"

definition CMD_ADMIN :: "32 word" where
  "CMD_ADMIN = push_bit 4 1"

definition PROPAGATE_AOF :: "32 word" where
  "PROPAGATE_AOF = 1"

definition PROPAGATE_REPL :: "32 word" where
  "PROPAGATE_REPL = 2"

subsection \<open>Helpers of the model and external functions\<close>

text \<open>A change of the structure a client or database reference points to.\<close>

definition upd_client :: "client_ref \<Rightarrow> (client \<Rightarrow> client) \<Rightarrow> world \<Rightarrow> world" where
  "upd_client c f s = s\<lparr>client_of := (client_of s)(c := f (client_of s c))\<rparr>"

definition upd_db :: "db_ref \<Rightarrow> (redisDb \<Rightarrow> redisDb) \<Rightarrow> world \<Rightarrow> world" where
  "upd_db d f s = s\<lparr>db_of := (db_of s)(d := f (db_of s d))\<rparr>"

text \<open>
  Modelled from the spec: \<^verbatim>\<open>addReply\<close>, \<^verbatim>\<open>addReplyError\<close> and \<^verbatim>\<open>addReplyMultiBulkLen\<close> are
  defined in networking.c, which is not among the sources. A reply is appended to the
  client's list of replies; the shared objects \<^verbatim>\<open>shared.ok\<close>, \<^verbatim>\<open>shared.execaborterr\<close> and
  \<^verbatim>\<open>shared.nullmultibulk\<close> are the constructors of \<open>reply\<close> of the same names.
\<close>

definition addReply :: "client_ref \<Rightarrow> reply \<Rightarrow> world \<Rightarrow> world" where
  "addReply c r s = upd_client c (\<lambda>cl. cl\<lparr>reply := reply cl @ [r]\<rparr>) s"

definition addReplyError :: "client_ref \<Rightarrow> string \<Rightarrow> world \<Rightarrow> world" where
  "addReplyError c msg s = addReply c (ReplyError msg) s"

definition addReplyMultiBulkLen :: "client_ref \<Rightarrow> nat \<Rightarrow> world \<Rightarrow> world" where
  "addReplyMultiBulkLen c n s = addReply c (ReplyMultiBulkLen n) s"

text \<open>
  Modelled from the spec: \<^verbatim>\<open>equalStringObjects\<close> is defined in object.c, which is not
  among the sources. The spec: the check uses value-equality on key bytes, not identity.
\<close>

definition equalStringObjects :: "robj \<Rightarrow> robj \<Rightarrow> bool" where
  "equalStringObjects a b = (ptr a = ptr b)"

text \<open>
  Modelled from the spec: dict.h declares the dictionary functions; their definitions
  (dict.c) and the key comparison of the watch dictionary (its \<^verbatim>\<open>dictType\<close>, in server.c)
  are not among the sources. The spec describes the index of a database as a mapping
  from key names to the clients watching them: the dictionary is an association list
  from the bytes of a key to its value, \<^verbatim>\<open>dictAdd\<close> adds an entry for a key that has none
  and leaves the dictionary as it is otherwise, \<^verbatim>\<open>dictDelete\<close> removes the key's entry.
\<close>

definition dictSize :: "(string \<times> 'v) list \<Rightarrow> nat" where
  "dictSize d = length d"

definition dictFetchValue :: "(string \<times> 'v) list \<Rightarrow> robj \<Rightarrow> 'v option" where
  "dictFetchValue d key = map_of d (ptr key)"

definition dictAdd :: "(string \<times> 'v) list \<Rightarrow> robj \<Rightarrow> 'v \<Rightarrow> (string \<times> 'v) list" where
  "dictAdd d key v = (if map_of d (ptr key) = None then d @ [(ptr key, v)] else d)"

definition dictDelete :: "(string \<times> 'v) list \<Rightarrow> robj \<Rightarrow> (string \<times> 'v) list" where
  "dictDelete d key = AList.delete (ptr key) d"

text \<open>
  The value of a watch-dictionary entry is a pointer to a list of clients; a change of
  that list through the pointer is a change of the entry's value.
\<close>

definition dictSetList :: "(string \<times> 'v) list \<Rightarrow> robj \<Rightarrow> 'v \<Rightarrow> (string \<times> 'v) list" where
  "dictSetList d key v = AList.update (ptr key) v d"

text \<open>
  Modelled from the spec: \<^verbatim>\<open>propagate\<close> (server.c), \<^verbatim>\<open>feedReplicationBacklog\<close> and
  \<^verbatim>\<open>replicationFeedMonitors\<close> (replication.c) are not among the sources. The spec names
  them as sinks: a call of \<^verbatim>\<open>propagate\<close> is recorded in \<open>propagate_log\<close>, the bytes fed
  to the replication backlog are appended to its byte stream, and the argument vector
  delivered to the monitors is recorded in \<open>monitor_feed\<close>.
\<close>

definition propagate :: "redisCommand \<Rightarrow> int \<Rightarrow> string list \<Rightarrow> 32 word \<Rightarrow> world \<Rightarrow> world" where
  "propagate rc dbid args target s =
     s\<lparr>propagate_log := propagate_log s @ [Propagate rc dbid args target]\<rparr>"

definition feedReplicationBacklog :: "string \<Rightarrow> world \<Rightarrow> world" where
  "feedReplicationBacklog bytes s =
     s\<lparr>repl_backlog := map_option (\<lambda>b. b @ bytes) (repl_backlog s)\<rparr>"

definition replicationFeedMonitors :: "client_ref \<Rightarrow> int \<Rightarrow> robj list \<Rightarrow> world \<Rightarrow> world" where
  "replicationFeedMonitors c dbid args s = s\<lparr>monitor_feed := monitor_feed s @ [(dbid, args)]\<rparr>"

section \<open>MULTI/EXEC\<close>

definition initClientMultiState :: "client_ref \<Rightarrow> world \<Rightarrow> world" where
  "initClientMultiState c s =
     upd_client c (\<lambda>cl. cl\<lparr>mstate := \<lparr>commands = [], cmd_flags = 0\<rparr>\<rparr>) s"

text \<open>\<^verbatim>\<open>freeClientMultiState\<close> only releases memory, which the model does not hold.\<close>

definition freeClientMultiState :: "client_ref \<Rightarrow> world \<Rightarrow> world" where
  "freeClientMultiState c s = s"

definition queueMultiCommand :: "client_ref \<Rightarrow> world \<Rightarrow> world" where
  "queueMultiCommand c s =
     upd_client c (\<lambda>cl. cl\<lparr>mstate :=
        \<lparr>commands = commands (mstate cl) @ [\<lparr>mc_argv = argv cl, mc_cmd = cmd cl\<rparr>],
         cmd_flags = cmd_flags (mstate cl) OR rc_flags (cmd cl)\<rparr>\<rparr>) s"

section \<open>WATCH\<close>

text \<open>
  The loop of \<^verbatim>\<open>watchForKey\<close> over the client's watched keys returns at the first entry
  with the client's database and an equal key.
\<close>

fun already_watched :: "db_ref \<Rightarrow> robj \<Rightarrow> watchedKey list \<Rightarrow> bool" where
  "already_watched d key [] = False"
| "already_watched d key (wk # wks) =
     (if wk_db wk = d \<and> equalStringObjects key (wk_key wk) then True
      else already_watched d key wks)"

definition watchForKey :: "client_ref \<Rightarrow> robj \<Rightarrow> world \<Rightarrow> world" where
  "watchForKey c key s =
     (let d = db (client_of s c) in
      if already_watched d key (watched_keys (client_of s c)) then s
      else
        let wkd = db_watched_keys (db_of s d);
            found = dictFetchValue wkd key;
            cls = (case found of None \<Rightarrow> [] | Some l \<Rightarrow> l);
            wkd1 = (case found of None \<Rightarrow> dictAdd wkd key cls | Some l \<Rightarrow> wkd);
            wkd2 = dictSetList wkd1 key (cls @ [c]);
            s1 = upd_db d (\<lambda>r. r\<lparr>db_watched_keys := wkd2\<rparr>) s
        in upd_client c (\<lambda>cl. cl\<lparr>watched_keys :=
             watched_keys cl @ [\<lparr>wk_key = key, wk_db = d\<rparr>]\<rparr>) s1)"

text \<open>
  One round of the loop of \<^verbatim>\<open>unwatchAllKeys\<close> for the node \<open>wk\<close>, the nodes \<open>wks\<close> being
  those after it. The assertion \<^verbatim>\<open>clients != NULL\<close> fails when the key has no entry;
  \<^verbatim>\<open>listSearchKey\<close> returns NULL when the client is not in the list, and \<^verbatim>\<open>listDelNode\<close>
  then dereferences it. Otherwise the first node holding the client is removed.
\<close>

fun unwatch_loop :: "client_ref \<Rightarrow> watchedKey list \<Rightarrow> world \<Rightarrow> error + world" where
  "unwatch_loop c [] s = Inr s"
| "unwatch_loop c (wk # wks) s =
     (case dictFetchValue (db_watched_keys (db_of s (wk_db wk))) (wk_key wk) of
        None \<Rightarrow> Inl AssertionFailed
      | Some cls \<Rightarrow>
          if c \<notin> set cls then Inl NullPointer
          else
            let cls' = remove1 c cls;
                s1 = upd_db (wk_db wk) (\<lambda>r. r\<lparr>db_watched_keys :=
                       dictSetList (db_watched_keys r) (wk_key wk) cls'\<rparr>) s;
                s2 = (if length cls' = 0
                      then upd_db (wk_db wk) (\<lambda>r. r\<lparr>db_watched_keys :=
                             dictDelete (db_watched_keys r) (wk_key wk)\<rparr>) s1
                      else s1);
                s3 = upd_client c (\<lambda>cl. cl\<lparr>watched_keys := wks\<rparr>) s2
            in unwatch_loop c wks s3)"

definition unwatchAllKeys :: "client_ref \<Rightarrow> world \<Rightarrow> error + world" where
  "unwatchAllKeys c s =
     (if length (watched_keys (client_of s c)) = 0 then Inr s
      else unwatch_loop c (watched_keys (client_of s c)) s)"

definition touchWatchedKey :: "db_ref \<Rightarrow> robj \<Rightarrow> world \<Rightarrow> world" where
  "touchWatchedKey d key s =
     (if dictSize (db_watched_keys (db_of s d)) = 0 then s
      else
        case dictFetchValue (db_watched_keys (db_of s d)) key of
          None \<Rightarrow> s
        | Some cls \<Rightarrow>
            fold (\<lambda>c. upd_client c (\<lambda>cl. cl\<lparr>flags := flags cl OR CLIENT_DIRTY_CAS\<rparr>)) cls s)"

text \<open>The inner loop of \<^verbatim>\<open>touchWatchedKeysOnFlush\<close>, over the watched keys of one client.\<close>

fun flush_touch_keys :: "int \<Rightarrow> client_ref \<Rightarrow> watchedKey list \<Rightarrow> world \<Rightarrow> world" where
  "flush_touch_keys dbid c [] s = s"
| "flush_touch_keys dbid c (wk # wks) s =
     flush_touch_keys dbid c wks
       (if dbid = -1 \<or> db_id (db_of s (wk_db wk)) = dbid then
          (if dict (db_of s (wk_db wk)) (ptr (wk_key wk)) \<noteq> None
           then upd_client c (\<lambda>cl. cl\<lparr>flags := flags cl OR CLIENT_DIRTY_CAS\<rparr>) s
           else s)
        else s)"

text \<open>The outer loop, over \<^verbatim>\<open>server.clients\<close>.\<close>

fun flush_touch_clients :: "int \<Rightarrow> client_ref list \<Rightarrow> world \<Rightarrow> world" where
  "flush_touch_clients dbid [] s = s"
| "flush_touch_clients dbid (c # cs) s =
     flush_touch_clients dbid cs (flush_touch_keys dbid c (watched_keys (client_of s c)) s)"

definition touchWatchedKeysOnFlush :: "int \<Rightarrow> world \<Rightarrow> world" where
  "touchWatchedKeysOnFlush dbid s = flush_touch_clients dbid (clients s) s"

section \<open>DISCARD, MULTI, EXEC, WATCH, UNWATCH\<close>

definition discardTransaction :: "client_ref \<Rightarrow> world \<Rightarrow> error + world" where
  "discardTransaction c s =
     (let s1 = freeClientMultiState c s;
          s2 = initClientMultiState c s1;
          s3 = upd_client c (\<lambda>cl. cl\<lparr>flags := flags cl AND
                 NOT (CLIENT_MULTI OR CLIENT_DIRTY_CAS OR CLIENT_DIRTY_EXEC)\<rparr>) s2
      in unwatchAllKeys c s3)"

definition flagTransaction :: "client_ref \<Rightarrow> world \<Rightarrow> world" where
  "flagTransaction c s =
     (if flags (client_of s c) AND CLIENT_MULTI \<noteq> 0
      then upd_client c (\<lambda>cl. cl\<lparr>flags := flags cl OR CLIENT_DIRTY_EXEC\<rparr>) s
      else s)"

definition multiCommand :: "client_ref \<Rightarrow> world \<Rightarrow> world" where
  "multiCommand c s =
     (if flags (client_of s c) AND CLIENT_MULTI \<noteq> 0
      then addReplyError c ''MULTI calls can not be nested'' s
      else addReply c shared_ok
             (upd_client c (\<lambda>cl. cl\<lparr>flags := flags cl OR CLIENT_MULTI\<rparr>) s))"

definition discardCommand :: "client_ref \<Rightarrow> world \<Rightarrow> error + world" where
  "discardCommand c s =
     (if \<not> (flags (client_of s c) AND CLIENT_MULTI \<noteq> 0)
      then Inr (addReplyError c ''DISCARD without MULTI'' s)
      else map_sum id (addReply c shared_ok) (discardTransaction c s))"

definition execCommandPropagateMulti :: "client_ref \<Rightarrow> world \<Rightarrow> world" where
  "execCommandPropagateMulti c s =
     propagate (server_multiCommand s) (db_id (db_of s (db (client_of s c)))) [''MULTI'']
       (PROPAGATE_AOF OR PROPAGATE_REPL) s"

text \<open>
  The executor \<^verbatim>\<open>call\<close> is defined in server.c, which is not among the sources: it is a
  parameter \<open>call\<close> of the model, a function of the client, the call flags and the world.

  The three parts of one round of the loop of \<^verbatim>\<open>execCommand\<close> for the entry \<open>j\<close>: the
  entry's argv and command are put on the client; the executor is called; the client's
  argv and command are written back to the entry.
\<close>

definition install_entry :: "client_ref \<Rightarrow> nat \<Rightarrow> world \<Rightarrow> world" where
  "install_entry c j s =
     upd_client c (\<lambda>cl. cl\<lparr>argv := mc_argv (commands (mstate cl) ! j),
                              cmd := mc_cmd (commands (mstate cl) ! j)\<rparr>) s"

definition call_entry ::
  "(client_ref \<Rightarrow> call_flags \<Rightarrow> world \<Rightarrow> world) \<Rightarrow> client_ref \<Rightarrow> world \<Rightarrow> world" where
  "call_entry call c s = call c (if loading s then CMD_CALL_NONE else CMD_CALL_FULL) s"

definition store_entry :: "client_ref \<Rightarrow> nat \<Rightarrow> world \<Rightarrow> world" where
  "store_entry c j s =
     upd_client c (\<lambda>cl. cl\<lparr>mstate := (mstate cl)\<lparr>commands :=
        (commands (mstate cl))[j := \<lparr>mc_argv = argv cl, mc_cmd = cmd cl\<rparr>]\<rparr>\<rparr>) s"

text \<open>
  The loop of \<^verbatim>\<open>execCommand\<close> from index \<open>j\<close>, with the current \<open>must_propagate\<close>. It reads
  \<^verbatim>\<open>mstate.count\<close> and \<^verbatim>\<open>mstate.commands[j]\<close> from the world at every round, as the source
  does, so with an executor that keeps growing the queue it does not return: the result
  is \<open>None\<close> then. The write of entry \<open>j\<close> after the call is a list update; the theorems
  about the loop are for executors that leave the client's queue alone, so \<open>j\<close> is in
  range there.
\<close>

partial_function (option) exec_drain ::
  "(client_ref \<Rightarrow> call_flags \<Rightarrow> world \<Rightarrow> world) \<Rightarrow> client_ref \<Rightarrow> nat \<Rightarrow> bool \<Rightarrow> world
     \<Rightarrow> (bool \<times> world) option" where
  "exec_drain call c j must_propagate s =
     (if j < length (commands (mstate (client_of s c))) then
        let s1 = install_entry c j s;
            fire = (\<not> must_propagate \<and>
                    rc_flags (cmd (client_of s1 c)) AND (CMD_READONLY OR CMD_ADMIN) = 0);
            s2 = (if fire then execCommandPropagateMulti c s1 else s1);
            s3 = call_entry call c s2;
            s4 = store_entry c j s3
        in exec_drain call c (j + 1) (must_propagate \<or> fire) s4
      else Some (must_propagate, s))"

text \<open>The tail of \<^verbatim>\<open>execCommand\<close> at the label \<^verbatim>\<open>handle_monitor\<close>.\<close>

definition handle_monitor :: "client_ref \<Rightarrow> world \<Rightarrow> world" where
  "handle_monitor c s =
     (if length (monitors s) \<noteq> 0 \<and> \<not> loading s
      then replicationFeedMonitors c (db_id (db_of s (db (client_of s c))))
             (argv (client_of s c)) s
      else s)"

text \<open>The bytes \<^verbatim>\<open>"*1\r\n$4\r\nEXEC\r\n"\<close>.\<close>

definition execcmd :: string where
  "execcmd = [CHR ''*'', CHR ''1'', CHR 0x0D, CHR 0x0A, CHR ''$'', CHR ''4'', CHR 0x0D, CHR 0x0A,
              CHR ''E'', CHR ''X'', CHR ''E'', CHR ''C'', CHR 0x0D, CHR 0x0A]"

text \<open>Step 10 of \<^verbatim>\<open>execCommand\<close>: what follows the last \<^verbatim>\<open>discardTransaction\<close>.\<close>

definition exec_finish :: "bool \<Rightarrow> bool \<Rightarrow> world \<Rightarrow> world" where
  "exec_finish must_propagate was_master s =
     (if must_propagate then
        let is_master = (masterhost s = None);
            s1 = s\<lparr>dirty := dirty s + 1\<rparr>
        in if repl_backlog s1 \<noteq> None \<and> was_master \<and> \<not> is_master
           then feedReplicationBacklog execcmd s1
           else s1
      else s)"

text \<open>
  \<^verbatim>\<open>execCommand\<close>. The result is \<open>None\<close> when the loop does not return, \<open>Some (Inl e)\<close>
  when the server stops at a failed assertion or a null pointer, \<open>Some (Inr s')\<close> when
  the command returns in the world \<open>s'\<close>.
\<close>

definition execCommand ::
  "(client_ref \<Rightarrow> call_flags \<Rightarrow> world \<Rightarrow> world) \<Rightarrow> client_ref \<Rightarrow> world \<Rightarrow> (error + world) option" where
  "execCommand call c s =
     (let was_master = (masterhost s = None) in
      if \<not> (flags (client_of s c) AND CLIENT_MULTI \<noteq> 0)
      then Some (Inr (addReplyError c ''EXEC without MULTI'' s))
      else if flags (client_of s c) AND (CLIENT_DIRTY_CAS OR CLIENT_DIRTY_EXEC) \<noteq> 0
      then Some (map_sum id (handle_monitor c)
             (discardTransaction c
               (addReply c (if flags (client_of s c) AND CLIENT_DIRTY_EXEC \<noteq> 0
                            then shared_execaborterr else shared_nullmultibulk) s)))
      else if \<not> loading s \<and> masterhost s \<noteq> None \<and> repl_slave_ro s \<and>
              \<not> (flags (client_of s c) AND CLIENT_MASTER \<noteq> 0) \<and>
              cmd_flags (mstate (client_of s c)) AND CMD_WRITE \<noteq> 0
      then Some (map_sum id (handle_monitor c)
             (discardTransaction c
               (addReplyError c
                  (''Transaction contains write commands but instance '' @
                   ''is now a read-only slave. EXEC aborted.'') s)))
      else
        case unwatchAllKeys c s of
          Inl e \<Rightarrow> Some (Inl e)
        | Inr s1 \<Rightarrow>
            let orig_argv = argv (client_of s1 c);
                orig_cmd = cmd (client_of s1 c);
                s2 = addReplyMultiBulkLen c (length (commands (mstate (client_of s1 c)))) s1
            in (case exec_drain call c 0 False s2 of
                  None \<Rightarrow> None
                | Some (must_propagate, s3) \<Rightarrow>
                    let s4 = upd_client c (\<lambda>cl. cl\<lparr>argv := orig_argv, cmd := orig_cmd\<rparr>) s3
                    in (case discardTransaction c s4 of
                          Inl e \<Rightarrow> Some (Inl e)
                        | Inr s5 \<Rightarrow>
                            Some (Inr (handle_monitor c
                                   (exec_finish must_propagate was_master s5))))))"

definition watchCommand :: "client_ref \<Rightarrow> world \<Rightarrow> world" where
  "watchCommand c s =
     (if flags (client_of s c) AND CLIENT_MULTI \<noteq> 0
      then addReplyError c ''WATCH inside MULTI is not allowed'' s
      else addReply c shared_ok
             (fold (\<lambda>key. watchForKey c key) (tl (argv (client_of s c))) s))"

definition unwatchCommand :: "client_ref \<Rightarrow> world \<Rightarrow> error + world" where
  "unwatchCommand c s =
     map_sum id
       (\<lambda>s1. addReply c shared_ok
               (upd_client c (\<lambda>cl. cl\<lparr>flags := flags cl AND NOT CLIENT_DIRTY_CAS\<rparr>) s1))
       (unwatchAllKeys c s)"

section \<open>The watch index as a relation\<close>

text \<open>The clients the index of database \<open>d\<close> lists for the key bytes \<open>k\<close>.\<close>

definition watchers :: "world \<Rightarrow> db_ref \<Rightarrow> string \<Rightarrow> client_ref list" where
  "watchers s d k = (case map_of (db_watched_keys (db_of s d)) k of None \<Rightarrow> [] | Some l \<Rightarrow> l)"

text \<open>The entries of a list of watched keys for database \<open>d\<close> and key bytes \<open>k\<close>.\<close>

definition entries_for :: "db_ref \<Rightarrow> string \<Rightarrow> watchedKey list \<Rightarrow> watchedKey list" where
  "entries_for d k wks = filter (\<lambda>wk. wk_db wk = d \<and> ptr (wk_key wk) = k) wks"

text \<open>Client \<open>c\<close> has \<open>(d, k)\<close> in its own list of watched keys.\<close>

definition watches :: "world \<Rightarrow> client_ref \<Rightarrow> db_ref \<Rightarrow> string \<Rightarrow> bool" where
  "watches s c d k = (entries_for d k (watched_keys (client_of s c)) \<noteq> [])"

text \<open>BI-1: the two sides of the index hold the same triples.\<close>

definition BI1 :: "world \<Rightarrow> bool" where
  "BI1 s = (\<forall>c d k. (c \<in> set (watchers s d k)) = watches s c d k)"

text \<open>
  The same with multiplicities: a client stands in the list of a key as often as the key
  stands in the client's list. \<^verbatim>\<open>unwatchAllKeys\<close> removes one node per watched key, so
  this is the form of the invariant that every operation keeps.
\<close>

definition watch_inv :: "world \<Rightarrow> bool" where
  "watch_inv s =
     (\<forall>c d k. count_list (watchers s d k) c =
               length (entries_for d k (watched_keys (client_of s c))))"

text \<open>The per-client bits of the spec's data model, read from the flag word.\<close>

definition in_multi :: "client \<Rightarrow> bool" where
  "in_multi cl = (flags cl AND CLIENT_MULTI \<noteq> 0)"

definition dirty_cas :: "client \<Rightarrow> bool" where
  "dirty_cas cl = (flags cl AND CLIENT_DIRTY_CAS \<noteq> 0)"

definition dirty_exec :: "client \<Rightarrow> bool" where
  "dirty_exec cl = (flags cl AND CLIENT_DIRTY_EXEC \<noteq> 0)"

text \<open>
  What \<^verbatim>\<open>unwatchAllKeys\<close> may change between \<open>s\<close> and \<open>s'\<close>: the watch dictionaries of
  the databases and the list of watched keys of client \<open>c\<close>, which ends empty.
\<close>

definition unwatch_frame :: "client_ref \<Rightarrow> world \<Rightarrow> world \<Rightarrow> bool" where
  "unwatch_frame c s s' =
     (s' = s\<lparr>db_of := db_of s',
            client_of := (client_of s)(c := (client_of s c)\<lparr>watched_keys := []\<rparr>)\<rparr> \<and>
      (\<forall>d. db_of s' d = (db_of s d)\<lparr>db_watched_keys := db_watched_keys (db_of s' d)\<rparr>))"

text \<open>BI-2: a client's list of watched keys holds a database and key at most once.\<close>

definition BI2 :: "world \<Rightarrow> bool" where
  "BI2 s = (\<forall>c d k. length (entries_for d k (watched_keys (client_of s c))) \<le> 1)"

text \<open>BI-6: the accumulated flags are the bitwise OR of the flags of the queued commands.\<close>

definition BI6 :: "client \<Rightarrow> bool" where
  "BI6 cl = (cmd_flags (mstate cl) =
     foldr (\<lambda>mc acc. rc_flags (mc_cmd mc) OR acc) (commands (mstate cl)) 0)"

text \<open>
  The first three steps of \<^verbatim>\<open>discardTransaction\<close>: the queue is emptied and the three
  transaction bits are cleared.
\<close>

definition reset_tx :: "client_ref \<Rightarrow> world \<Rightarrow> world" where
  "reset_tx c s = upd_client c (\<lambda>cl. cl\<lparr>mstate := \<lparr>commands = [], cmd_flags = 0\<rparr>,
      flags := flags cl AND NOT (CLIENT_MULTI OR CLIENT_DIRTY_CAS OR CLIENT_DIRTY_EXEC)\<rparr>) s"

text \<open>
  The transaction of client \<open>c\<close> is terminated: the queue and the accumulated flags are
  cleared, the client is not in MULTI and has neither dirty flag, it watches no key and
  no key lists it as a watcher.
\<close>

definition tx_terminated :: "client_ref \<Rightarrow> world \<Rightarrow> bool" where
  "tx_terminated c s =
     (commands (mstate (client_of s c)) = [] \<and> cmd_flags (mstate (client_of s c)) = 0 \<and>
      \<not> in_multi (client_of s c) \<and> \<not> dirty_cas (client_of s c) \<and>
      \<not> dirty_exec (client_of s c) \<and> watched_keys (client_of s c) = [] \<and>
      (\<forall>d k. c \<notin> set (watchers s d k)))"

text \<open>
  The role gate of \<^verbatim>\<open>execCommand\<close>: the server is a read-only follower, the client is
  not the replication channel, and the queue holds a write command.
\<close>

definition readonly_gate :: "world \<Rightarrow> client_ref \<Rightarrow> bool" where
  "readonly_gate s c =
     (\<not> loading s \<and> masterhost s \<noteq> None \<and> repl_slave_ro s \<and>
      flags (client_of s c) AND CLIENT_MASTER = 0 \<and>
      cmd_flags (mstate (client_of s c)) AND CMD_WRITE \<noteq> 0)"

section \<open>The drain, as the spec describes it\<close>

text \<open>
  What an executor may not do while it runs a queued command of client \<open>c\<close>: change the
  client's queue or its list of watched keys (WATCH is refused inside MULTI, and
  commands are queued by the dispatcher only).
\<close>

definition call_frame ::
  "(client_ref \<Rightarrow> call_flags \<Rightarrow> world \<Rightarrow> world) \<Rightarrow> client_ref \<Rightarrow> bool" where
  "call_frame call c =
     (\<forall>fl s. mstate (client_of (call c fl s) c) = mstate (client_of s c) \<and>
             watched_keys (client_of (call c fl s) c) = watched_keys (client_of s c))"

text \<open>Entry \<open>j\<close> of the queue of client \<open>c\<close> is neither read-only nor admin.\<close>

definition triggers_multi :: "world \<Rightarrow> client_ref \<Rightarrow> nat \<Rightarrow> bool" where
  "triggers_multi s c j =
     (rc_flags (mc_cmd (commands (mstate (client_of s c)) ! j)) AND (CMD_READONLY OR CMD_ADMIN) = 0)"

text \<open>Entry \<open>j\<close> executed with nothing sent to the propagation sink by the engine.\<close>

definition run_entry ::
  "(client_ref \<Rightarrow> call_flags \<Rightarrow> world \<Rightarrow> world) \<Rightarrow> client_ref \<Rightarrow> nat \<Rightarrow> world \<Rightarrow> world" where
  "run_entry call c j s = store_entry c j (call_entry call c (install_entry c j s))"

text \<open>Entry \<open>j\<close> executed after the synthetic MULTI is sent to the propagation sink.\<close>

definition run_entry_after_multi ::
  "(client_ref \<Rightarrow> call_flags \<Rightarrow> world \<Rightarrow> world) \<Rightarrow> client_ref \<Rightarrow> nat \<Rightarrow> world \<Rightarrow> world" where
  "run_entry_after_multi call c j s =
     store_entry c j (call_entry call c (execCommandPropagateMulti c (install_entry c j s)))"

text \<open>The entries \<open>js\<close> executed in order, nothing sent by the engine.\<close>

fun run_entries ::
  "(client_ref \<Rightarrow> call_flags \<Rightarrow> world \<Rightarrow> world) \<Rightarrow> client_ref \<Rightarrow> nat list \<Rightarrow> world \<Rightarrow> world" where
  "run_entries call c [] s = s"
| "run_entries call c (j # js) s = run_entries call c js (run_entry call c j s)"

text \<open>The first entry of the queue of client \<open>c\<close> that is neither read-only nor admin.\<close>

definition first_trigger :: "world \<Rightarrow> client_ref \<Rightarrow> nat option" where
  "first_trigger s c =
     List.find (triggers_multi s c) [0..<length (commands (mstate (client_of s c)))]"

text \<open>
  The drain as the spec describes it: the entries before the first trigger are executed
  with nothing sent by the engine, the synthetic MULTI is sent once before the trigger is
  executed and \<open>must_propagate\<close> is true from then on, and the entries after it are
  executed with nothing more sent. Without a trigger nothing is sent and
  \<open>must_propagate\<close> stays false.
\<close>

definition drain_outcome ::
  "(client_ref \<Rightarrow> call_flags \<Rightarrow> world \<Rightarrow> world) \<Rightarrow> client_ref \<Rightarrow> world \<Rightarrow> bool \<times> world" where
  "drain_outcome call c s =
     (case first_trigger s c of
        None \<Rightarrow> (False, run_entries call c [0..<length (commands (mstate (client_of s c)))] s)
      | Some i \<Rightarrow>
          (True, run_entries call c [Suc i..<length (commands (mstate (client_of s c)))]
                   (run_entry_after_multi call c i (run_entries call c [0..<i] s))))"

text \<open>An executor that sends nothing to the propagation sink.\<close>

definition call_quiet ::
  "(client_ref \<Rightarrow> call_flags \<Rightarrow> world \<Rightarrow> world) \<Rightarrow> client_ref \<Rightarrow> bool" where
  "call_quiet call c = (\<forall>fl s. propagate_log (call c fl s) = propagate_log s)"

text \<open>The world in which EXEC returns on the path that executes the queue.\<close>

definition exec_after_drain :: "client_ref \<Rightarrow> world \<Rightarrow> bool \<Rightarrow> world \<Rightarrow> world" where
  "exec_after_drain c s mp s3 =
     handle_monitor c (exec_finish mp (masterhost s = None)
       (reset_tx c (upd_client c (\<lambda>cl. cl\<lparr>argv := argv (client_of s c),
                                              cmd := cmd (client_of s c)\<rparr>) s3)))"

text \<open>The dispatcher puts a command and its arguments on the client.\<close>

definition client_sends :: "client_ref \<Rightarrow> redisCommand \<Rightarrow> robj list \<Rightarrow> world \<Rightarrow> world" where
  "client_sends c rc args s = upd_client c (\<lambda>cl. cl\<lparr>argv := args, cmd := rc\<rparr>) s"

text \<open>
  Between MULTI and EXEC the dispatcher either queues the command the client sent
  (\<^verbatim>\<open>queueMultiCommand\<close>) or rejects it with a queue-time error (\<^verbatim>\<open>flagTransaction\<close>).
\<close>

datatype queue_event = Queued redisCommand "robj list" | Rejected

fun queue_step :: "client_ref \<Rightarrow> queue_event \<Rightarrow> world \<Rightarrow> world" where
  "queue_step c (Queued rc args) s = queueMultiCommand c (client_sends c rc args s)"
| "queue_step c Rejected s = flagTransaction c s"

text \<open>
  The course of events of a tainted transaction: the client sends \<open>WATCH\<close> with the
  argument vector \<open>args\<close> and \<^verbatim>\<open>watchCommand\<close> runs; the key \<open>key'\<close> is touched in the
  client's database; the client enters MULTI; the events \<open>evs\<close> happen in order.
\<close>

definition touched_before_multi ::
  "client_ref \<Rightarrow> redisCommand \<Rightarrow> robj list \<Rightarrow> robj \<Rightarrow> queue_event list \<Rightarrow> world \<Rightarrow> world" where
  "touched_before_multi c rc args key' evs s =
     fold (queue_step c) evs
       (multiCommand c
         (touchWatchedKey (db (client_of s c)) key'
           (watchCommand c (client_sends c rc args s))))"

text \<open>
  Modelled from the spec: the disconnect of a client (\<^verbatim>\<open>freeClient\<close>, networking.c) is not
  among the sources. The spec: client disconnect executes the same cleanup as DISCARD,
  plus free of queue storage.
\<close>

definition clientDisconnect :: "client_ref \<Rightarrow> world \<Rightarrow> error + world" where
  "clientDisconnect c s = map_sum id (freeClientMultiState c) (discardTransaction c s)"

section \<open>Concrete worlds\<close>

definition cmd_get :: redisCommand where
  "cmd_get = \<lparr>rc_name = ''get'', rc_flags = CMD_READONLY\<rparr>"

definition cmd_set :: redisCommand where
  "cmd_set = \<lparr>rc_name = ''set'', rc_flags = CMD_WRITE\<rparr>"

definition cmd_multi :: redisCommand where
  "cmd_multi = \<lparr>rc_name = ''multi'', rc_flags = 0\<rparr>"

definition cmd_exec :: redisCommand where
  "cmd_exec = \<lparr>rc_name = ''exec'', rc_flags = 0\<rparr>"

definition key_a :: robj where
  "key_a = \<lparr>obj_addr = 100, ptr = ''a''\<rparr>"

text \<open>Another object with the same bytes.\<close>

definition key_a' :: robj where
  "key_a' = \<lparr>obj_addr = 200, ptr = ''a''\<rparr>"

definition idle_client :: client where
  "idle_client = \<lparr>db = 0, argv = [], cmd = cmd_exec, flags = 0,
     mstate = \<lparr>commands = [], cmd_flags = 0\<rparr>, watched_keys = [], reply = []\<rparr>"

text \<open>A primary with two idle clients, no watched key and an empty keyspace.\<close>

definition world0 :: world where
  "world0 = \<lparr>db_of = (\<lambda>d. \<lparr>dict = Map.empty, db_watched_keys = [], db_id = int d\<rparr>),
     client_of = (\<lambda>c. idle_client), clients = [0, 1], monitors = [], loading = False,
     masterhost = None, repl_slave_ro = True, dirty = 0, repl_backlog = None,
     server_multiCommand = cmd_multi, propagate_log = [], monitor_feed = []\<rparr>"

text \<open>
  The test of \<^verbatim>\<open>touchWatchedKeysOnFlush\<close> on one watched key: its database is the one
  flushed (or all are), and the key is in the keyspace of its database.
\<close>

definition flush_hits :: "int \<Rightarrow> world \<Rightarrow> watchedKey \<Rightarrow> bool" where
  "flush_hits dbid s wk =
     ((dbid = -1 \<or> db_id (db_of s (wk_db wk)) = dbid) \<and>
      dict (db_of s (wk_db wk)) (ptr (wk_key wk)) \<noteq> None)"

text \<open>Two worlds with the same watch index, on both sides.\<close>

definition same_index :: "world \<Rightarrow> world \<Rightarrow> bool" where
  "same_index s s' =
     ((\<forall>c. watched_keys (client_of s' c) = watched_keys (client_of s c)) \<and>
      (\<forall>d. db_watched_keys (db_of s' d) = db_watched_keys (db_of s d)))"

text \<open>A world in which no client watches a key and no key has watchers.\<close>

definition no_watches :: "world \<Rightarrow> bool" where
  "no_watches s =
     ((\<forall>c. watched_keys (client_of s c) = []) \<and> (\<forall>d. db_watched_keys (db_of s d) = []))"

text \<open>
  The stable points: the worlds reached from one without watches by the four operations
  on the watch index and by steps that leave the index as it is (queueing, replies,
  changes of the keyspace, of the flags and of the server's fields).
\<close>

inductive stable_point :: "world \<Rightarrow> bool" where
  sp_init: "no_watches s \<Longrightarrow> stable_point s"
| sp_watch: "stable_point s \<Longrightarrow> stable_point (watchForKey c key s)"
| sp_unwatch_all: "stable_point s \<Longrightarrow> unwatchAllKeys c s = Inr s' \<Longrightarrow> stable_point s'"
| sp_touch: "stable_point s \<Longrightarrow> stable_point (touchWatchedKey d key s)"
| sp_touch_on_flush: "stable_point s \<Longrightarrow> stable_point (touchWatchedKeysOnFlush dbid s)"
| sp_other: "stable_point s \<Longrightarrow> same_index s s' \<Longrightarrow> stable_point s'"

text \<open>The world \<open>world0\<close> with the key \<open>a\<close> stored in database 0.\<close>

definition world_a :: world where
  "world_a = world0\<lparr>db_of := (db_of world0)
     (0 := (db_of world0 0)\<lparr>dict := [''a'' \<mapsto> \<lparr>obj_addr = 300, ptr = ''1''\<rparr>]\<rparr>)\<rparr>"

text \<open>
  Client 0 watches \<open>a\<close> and enters MULTI; in \<open>world_dirty_exec\<close> a queue-time error has
  flagged the transaction, in \<open>world_dirty_cas\<close> the watched key has been touched, in
  \<open>world_dirty_both\<close> both have happened.
\<close>

definition world_multi :: world where
  "world_multi = multiCommand 0 (watchForKey 0 key_a world0)"

definition world_dirty_exec :: world where
  "world_dirty_exec = flagTransaction 0 world_multi"

definition world_dirty_cas :: world where
  "world_dirty_cas = touchWatchedKey 0 key_a' world_multi"

definition world_dirty_both :: world where
  "world_dirty_both = flagTransaction 0 world_dirty_cas"

text \<open>An executor that does nothing.\<close>

definition call_nothing :: "client_ref \<Rightarrow> call_flags \<Rightarrow> world \<Rightarrow> world" where
  "call_nothing c fl s = s"

definition set_a_1 :: "robj list" where
  "set_a_1 = [\<lparr>obj_addr = 400, ptr = ''SET''\<rparr>, \<lparr>obj_addr = 401, ptr = ''a''\<rparr>,
     \<lparr>obj_addr = 402, ptr = ''1''\<rparr>]"

definition get_a :: "robj list" where
  "get_a = [\<lparr>obj_addr = 500, ptr = ''GET''\<rparr>, \<lparr>obj_addr = 501, ptr = ''a''\<rparr>]"

text \<open>
  Client 0, in MULTI and watching \<open>a\<close>, has queued \<open>SET a 1\<close>; in \<open>world_follower\<close> the
  server has since become a read-only follower; in \<open>world_follower_cas\<close> the watched key
  has been touched as well.
\<close>

definition world_queued_set :: world where
  "world_queued_set = queueMultiCommand 0 (client_sends 0 cmd_set set_a_1 world_multi)"

definition world_follower :: world where
  "world_follower = world_queued_set\<lparr>masterhost := Some ''10.0.0.1''\<rparr>"

definition world_follower_cas :: world where
  "world_follower_cas = touchWatchedKey 0 key_a' world_follower"

definition cmd_slaveof :: redisCommand where
  "cmd_slaveof = \<lparr>rc_name = ''slaveof'', rc_flags = CMD_ADMIN\<rparr>"

definition slaveof_args :: "robj list" where
  "slaveof_args = [\<lparr>obj_addr = 600, ptr = ''SLAVEOF''\<rparr>, \<lparr>obj_addr = 601, ptr = ''10.0.0.1''\<rparr>,
     \<lparr>obj_addr = 602, ptr = ''6379''\<rparr>]"

text \<open>
  An executor that knows one command: \<open>SLAVEOF\<close> makes the server a follower. Every
  other command leaves the world as it is.
\<close>

definition call_replicaof :: "client_ref \<Rightarrow> call_flags \<Rightarrow> world \<Rightarrow> world" where
  "call_replicaof c fl s =
     (if rc_name (cmd (client_of s c)) = ''slaveof'' then s\<lparr>masterhost := Some ''10.0.0.1''\<rparr>
      else s)"

text \<open>
  Worlds in which client 0 is in MULTI and watches nothing. Its queue is \<open>GET a\<close> in
  \<open>world_reads\<close>; \<open>GET a\<close>, \<open>SET a 1\<close>, \<open>SET a 1\<close> in \<open>world_batch\<close>; \<open>SET a 1\<close>,
  \<open>SLAVEOF 10.0.0.1 6379\<close> in \<open>world_replicaof\<close>, on a primary without a replication
  backlog, and the same in \<open>world_replicaof_backlog\<close>, on a primary with an (empty)
  backlog.
\<close>

definition world_reads :: world where
  "world_reads = queueMultiCommand 0 (client_sends 0 cmd_get get_a (multiCommand 0 world0))"

definition world_batch :: world where
  "world_batch =
     queueMultiCommand 0 (client_sends 0 cmd_set set_a_1
       (queueMultiCommand 0 (client_sends 0 cmd_set set_a_1 world_reads)))"

definition world_replicaof :: world where
  "world_replicaof =
     queueMultiCommand 0 (client_sends 0 cmd_slaveof slaveof_args
       (queueMultiCommand 0 (client_sends 0 cmd_set set_a_1 (multiCommand 0 world0))))"

definition world_replicaof_backlog :: world where
  "world_replicaof_backlog = world_replicaof\<lparr>repl_backlog := Some []\<rparr>"

definition cmd_watch :: redisCommand where
  "cmd_watch = \<lparr>rc_name = ''watch'', rc_flags = 0\<rparr>"

definition watch_a :: "robj list" where
  "watch_a = [\<lparr>obj_addr = 700, ptr = ''WATCH''\<rparr>, key_a]"

text \<open>
  Client 0 sends \<open>WATCH a\<close>, the key is touched, the client enters MULTI and \<open>SET a 1\<close>
  is queued: \<open>world_tainted\<close>. In \<open>world_tainted_rejected\<close> a command is rejected with a
  queue-time error before the \<open>SET\<close> is queued.
\<close>

definition world_tainted :: world where
  "world_tainted =
     touched_before_multi 0 cmd_watch watch_a key_a' [Queued cmd_set set_a_1] world0"

definition world_tainted_rejected :: world where
  "world_tainted_rejected =
     touched_before_multi 0 cmd_watch watch_a key_a' [Rejected, Queued cmd_set set_a_1] world0"

section \<open>Lemmas on the flag bits\<close>

lemma or_and_self: "(x OR m) AND m = (m::32 word)"
  by (auto simp: bit_eq_iff bit_simps)

lemma or_bit_and_other:
  "i \<noteq> j \<Longrightarrow> (x OR push_bit i 1) AND push_bit j 1 = x AND push_bit j (1::32 word)"
  by (auto simp: bit_eq_iff bit_simps)

lemma flag_nonzero:
  "CLIENT_DIRTY_CAS \<noteq> 0" "CLIENT_MULTI \<noteq> 0" "CLIENT_DIRTY_EXEC \<noteq> 0"
  by (simp_all add: CLIENT_DIRTY_CAS_def CLIENT_MULTI_def CLIENT_DIRTY_EXEC_def)

lemma cleared_bits:
  "(x AND NOT (CLIENT_MULTI OR CLIENT_DIRTY_CAS OR CLIENT_DIRTY_EXEC)) AND CLIENT_MULTI = 0"
  "(x AND NOT (CLIENT_MULTI OR CLIENT_DIRTY_CAS OR CLIENT_DIRTY_EXEC)) AND CLIENT_DIRTY_CAS = 0"
  "(x AND NOT (CLIENT_MULTI OR CLIENT_DIRTY_CAS OR CLIENT_DIRTY_EXEC)) AND CLIENT_DIRTY_EXEC = 0"
  by (auto simp: bit_eq_iff bit_simps)

lemma set_bit_keeps_others:
  "(x OR CLIENT_MULTI) AND CLIENT_DIRTY_CAS = x AND CLIENT_DIRTY_CAS"
  "(x OR CLIENT_MULTI) AND CLIENT_DIRTY_EXEC = x AND CLIENT_DIRTY_EXEC"
  "(x OR CLIENT_DIRTY_EXEC) AND CLIENT_DIRTY_CAS = x AND CLIENT_DIRTY_CAS"
  "(x OR CLIENT_DIRTY_CAS) AND CLIENT_DIRTY_EXEC = x AND CLIENT_DIRTY_EXEC"
  "(x OR CLIENT_DIRTY_CAS) AND CLIENT_MULTI = x AND CLIENT_MULTI"
  "(x OR CLIENT_DIRTY_EXEC) AND CLIENT_MULTI = x AND CLIENT_MULTI"
  unfolding CLIENT_MULTI_def CLIENT_DIRTY_CAS_def CLIENT_DIRTY_EXEC_def
  by (rule or_bit_and_other, simp)+

lemma mask_cas_exec:
  "(x AND (CLIENT_DIRTY_CAS OR CLIENT_DIRTY_EXEC) \<noteq> 0) =
     (x AND CLIENT_DIRTY_CAS \<noteq> 0 \<or> x AND CLIENT_DIRTY_EXEC \<noteq> 0)"
  by (auto simp: bit_eq_iff bit_simps)

lemma and_not_cas: "(x AND NOT CLIENT_DIRTY_CAS) AND CLIENT_DIRTY_CAS = 0"
  by (auto simp: bit_eq_iff bit_simps)

lemma dirty_cas_set: "dirty_cas (cl\<lparr>flags := flags cl OR CLIENT_DIRTY_CAS\<rparr>)"
  by (simp add: dirty_cas_def or_and_self flag_nonzero)

section \<open>Lemmas on the watch index\<close>

lemma fold_set_flag:
  "fold (\<lambda>c. upd_client c (\<lambda>cl. cl\<lparr>flags := flags cl OR F\<rparr>)) cls s =
     s\<lparr>client_of := (\<lambda>c. if c \<in> set cls then (client_of s c)\<lparr>flags := flags (client_of s c) OR F\<rparr>
                          else client_of s c)\<rparr>"
proof (induction cls arbitrary: s)
  case Nil
  show ?case by simp
next
  case (Cons a cls)
  let ?g = "\<lambda>cl. cl\<lparr>flags := flags cl OR F\<rparr>"
  have "fold (\<lambda>c. upd_client c ?g) (a # cls) s = fold (\<lambda>c. upd_client c ?g) cls (upd_client a ?g s)"
    by simp
  also have "\<dots> = (upd_client a ?g s)\<lparr>client_of := (\<lambda>c. if c \<in> set cls
        then (client_of (upd_client a ?g s) c)\<lparr>flags := flags (client_of (upd_client a ?g s) c) OR F\<rparr>
        else client_of (upd_client a ?g s) c)\<rparr>"
    by (rule Cons.IH)
  also have "\<dots> = s\<lparr>client_of := (\<lambda>c. if c \<in> set (a # cls)
        then (client_of s c)\<lparr>flags := flags (client_of s c) OR F\<rparr> else client_of s c)\<rparr>"
    by (simp add: upd_client_def fun_eq_iff or.assoc)
  finally show ?case .
qed

lemma touchWatchedKey_eq:
  "touchWatchedKey d key s =
     s\<lparr>client_of := (\<lambda>c. if c \<in> set (watchers s d (ptr key))
                          then (client_of s c)\<lparr>flags := flags (client_of s c) OR CLIENT_DIRTY_CAS\<rparr>
                          else client_of s c)\<rparr>"
  by (auto simp: touchWatchedKey_def fold_set_flag watchers_def dictFetchValue_def dictSize_def
      split: option.splits)

lemma watch_inv_BI1: "watch_inv s \<Longrightarrow> BI1 s"
  unfolding watch_inv_def BI1_def watches_def
  by (metis count_list_0_iff length_0_conv)

lemma already_watched_iff:
  "already_watched d key wks = (entries_for d (ptr key) wks \<noteq> [])"
  by (induction wks) (auto simp: entries_for_def equalStringObjects_def)

lemma count_list_remove1:
  "count_list (remove1 c xs) y = (if y = c then count_list xs c - 1 else count_list xs y)"
  by (induction xs) auto

lemma watchers_watchForKey:
  "\<not> already_watched (db (client_of s c)) key (watched_keys (client_of s c)) \<Longrightarrow>
   watchers (watchForKey c key s) d k =
     (if d = db (client_of s c) \<and> k = ptr key then watchers s d k @ [c] else watchers s d k)"
  by (auto simp: watchForKey_def Let_def upd_db_def upd_client_def dictSetList_def dictAdd_def
      dictFetchValue_def update_conv' watchers_def map_add_def split: option.splits)

lemma watched_keys_watchForKey:
  "watched_keys (client_of (watchForKey c key s) c') =
     (if c' = c \<and> \<not> already_watched (db (client_of s c)) key (watched_keys (client_of s c))
      then watched_keys (client_of s c) @ [\<lparr>wk_key = key, wk_db = db (client_of s c)\<rparr>]
      else watched_keys (client_of s c'))"
  by (simp add: watchForKey_def Let_def upd_client_def upd_db_def)

lemma watch_inv_watchForKey: "watch_inv s \<Longrightarrow> watch_inv (watchForKey c key s)"
proof (cases "already_watched (db (client_of s c)) key (watched_keys (client_of s c))")
  case True
  then show "watch_inv s \<Longrightarrow> watch_inv (watchForKey c key s)"
    by (simp add: watchForKey_def)
next
  case False
  assume inv: "watch_inv s"
  show "watch_inv (watchForKey c key s)"
    unfolding watch_inv_def
  proof (intro allI)
    fix c' d k
    from inv have old: "count_list (watchers s d k) c' =
        length (entries_for d k (watched_keys (client_of s c')))"
      by (simp add: watch_inv_def)
    show "count_list (watchers (watchForKey c key s) d k) c' =
        length (entries_for d k (watched_keys (client_of (watchForKey c key s) c')))"
      using False old
      by (auto simp: watchers_watchForKey watched_keys_watchForKey entries_for_def)
  qed
qed

lemma watch_inv_world0: "watch_inv world0"
  by (simp add: watch_inv_def world0_def watchers_def idle_client_def entries_for_def)

lemma unwatch_frame_refl:
  "watched_keys (client_of s c) = [] \<Longrightarrow> unwatch_frame c s s"
  by (simp add: unwatch_frame_def fun_upd_idem)

lemma unwatch_loop_ok:
  "watch_inv s \<Longrightarrow> watched_keys (client_of s c) = wks \<Longrightarrow>
   \<exists>s'. unwatch_loop c wks s = Inr s' \<and> watch_inv s' \<and> unwatch_frame c s s'"
proof (induction wks arbitrary: s)
  case Nil
  then show ?case by (simp add: unwatch_frame_refl)
next
  case (Cons wk wks)
  let ?d = "wk_db wk" and ?k = "ptr (wk_key wk)"
  from Cons.prems have cnt: "count_list (watchers s ?d ?k) c = length (entries_for ?d ?k (wk # wks))"
    by (simp add: watch_inv_def)
  then have "count_list (watchers s ?d ?k) c \<noteq> 0"
    by (simp add: entries_for_def)
  then have mem: "c \<in> set (watchers s ?d ?k)"
    by (simp add: count_list_0_iff)
  then obtain cls where cls: "map_of (db_watched_keys (db_of s ?d)) ?k = Some cls" "c \<in> set cls"
    by (cases "map_of (db_watched_keys (db_of s ?d)) ?k") (auto simp: watchers_def)
  define s3 where "s3 =
    upd_client c (\<lambda>cl. cl\<lparr>watched_keys := wks\<rparr>)
      (let s1 = upd_db ?d (\<lambda>r. r\<lparr>db_watched_keys :=
                  dictSetList (db_watched_keys r) (wk_key wk) (remove1 c cls)\<rparr>) s
       in if length (remove1 c cls) = 0
          then upd_db ?d (\<lambda>r. r\<lparr>db_watched_keys := dictDelete (db_watched_keys r) (wk_key wk)\<rparr>) s1
          else s1)"
  have step: "unwatch_loop c (wk # wks) s = unwatch_loop c wks s3"
    using cls by (simp add: dictFetchValue_def s3_def Let_def)
  have w3: "watchers s3 d k = (if d = ?d \<and> k = ?k then remove1 c cls else watchers s d k)" for d k
    using cls
    by (auto simp: s3_def Let_def watchers_def upd_db_def upd_client_def dictSetList_def
        dictDelete_def update_conv' delete_conv' split: option.splits)
  have k3: "watched_keys (client_of s3 c') = (if c' = c then wks else watched_keys (client_of s c'))" for c'
    by (simp add: s3_def Let_def upd_db_def upd_client_def)
  have ws: "watchers s ?d ?k = cls"
    using cls by (simp add: watchers_def)
  have inv3: "watch_inv s3"
    unfolding watch_inv_def
  proof (intro allI)
    fix c' d k
    from Cons.prems have old: "count_list (watchers s d k) c' =
        length (entries_for d k (watched_keys (client_of s c')))"
      by (simp add: watch_inv_def)
    show "count_list (watchers s3 d k) c' = length (entries_for d k (watched_keys (client_of s3 c')))"
      using old Cons.prems(2) ws
      by (auto simp: w3 k3 count_list_remove1 entries_for_def)
  qed
  have "watched_keys (client_of s3 c) = wks" by (simp add: k3)
  with Cons.IH [OF inv3] obtain s' where
    s': "unwatch_loop c wks s3 = Inr s'" "watch_inv s'" "unwatch_frame c s3 s'"
    by blast
  have fr: "unwatch_frame c s s'"
    using s'(3)
    by (auto simp: unwatch_frame_def s3_def Let_def upd_db_def upd_client_def split: if_splits)
  show ?case
    using step s' fr by simp
qed

lemma unwatchAllKeys_ok:
  assumes "watch_inv s"
  shows "\<exists>s'. unwatchAllKeys c s = Inr s' \<and> watch_inv s' \<and> unwatch_frame c s s'"
proof (cases "watched_keys (client_of s c) = []")
  case True
  with assms show ?thesis
    by (simp add: unwatchAllKeys_def unwatch_frame_refl)
next
  case False
  with unwatch_loop_ok [OF assms refl, of c] show ?thesis
    by (simp add: unwatchAllKeys_def)
qed

lemma flush_hits_upd_client [simp]:
  "flush_hits dbid (upd_client c f s) wk = flush_hits dbid s wk"
  by (simp add: flush_hits_def upd_client_def)

lemma flush_touch_keys_eq:
  "flush_touch_keys dbid c wks s =
     (if \<exists>wk\<in>set wks. flush_hits dbid s wk
      then upd_client c (\<lambda>cl. cl\<lparr>flags := flags cl OR CLIENT_DIRTY_CAS\<rparr>) s else s)"
proof (induction wks arbitrary: s)
  case Nil
  show ?case by simp
next
  case (Cons wk wks)
  show ?case
  proof (cases "flush_hits dbid s wk")
    case True
    then have "flush_touch_keys dbid c (wk # wks) s =
        flush_touch_keys dbid c wks (upd_client c (\<lambda>cl. cl\<lparr>flags := flags cl OR CLIENT_DIRTY_CAS\<rparr>) s)"
      by (auto simp: flush_hits_def)
    also have "\<dots> = upd_client c (\<lambda>cl. cl\<lparr>flags := flags cl OR CLIENT_DIRTY_CAS\<rparr>) s"
      by (simp add: Cons.IH) (simp add: upd_client_def or.assoc)
    finally show ?thesis using True by simp
  next
    case False
    then have "flush_touch_keys dbid c (wk # wks) s = flush_touch_keys dbid c wks s"
      by (auto simp: flush_hits_def)
    with False show ?thesis by (simp add: Cons.IH)
  qed
qed

lemma flush_touch_clients_eq:
  "flush_touch_clients dbid cs s =
     s\<lparr>client_of := (\<lambda>c. if c \<in> set cs \<and> (\<exists>wk\<in>set (watched_keys (client_of s c)). flush_hits dbid s wk)
                          then (client_of s c)\<lparr>flags := flags (client_of s c) OR CLIENT_DIRTY_CAS\<rparr>
                          else client_of s c)\<rparr>"
proof (induction cs arbitrary: s)
  case Nil
  show ?case by simp
next
  case (Cons a cs)
  define s1 where "s1 = flush_touch_keys dbid a (watched_keys (client_of s a)) s"
  have wk1: "watched_keys (client_of s1 c) = watched_keys (client_of s c)" for c
    by (simp add: s1_def flush_touch_keys_eq upd_client_def)
  have fh1: "flush_hits dbid s1 wk = flush_hits dbid s wk" for wk
    by (simp add: s1_def flush_touch_keys_eq)
  have "flush_touch_clients dbid (a # cs) s = flush_touch_clients dbid cs s1"
    by (simp add: s1_def)
  also have "\<dots> = s1\<lparr>client_of := (\<lambda>c. if c \<in> set cs \<and> (\<exists>wk\<in>set (watched_keys (client_of s1 c)). flush_hits dbid s1 wk)
                          then (client_of s1 c)\<lparr>flags := flags (client_of s1 c) OR CLIENT_DIRTY_CAS\<rparr>
                          else client_of s1 c)\<rparr>"
    by (rule Cons.IH)
  also have "\<dots> = s\<lparr>client_of := (\<lambda>c. if c \<in> set (a # cs) \<and> (\<exists>wk\<in>set (watched_keys (client_of s c)). flush_hits dbid s wk)
                          then (client_of s c)\<lparr>flags := flags (client_of s c) OR CLIENT_DIRTY_CAS\<rparr>
                          else client_of s c)\<rparr>"
    unfolding wk1 fh1
    by (auto simp: s1_def flush_touch_keys_eq upd_client_def fun_eq_iff or.assoc)
  finally show ?case .
qed

lemma touchWatchedKeysOnFlush_eq:
  "touchWatchedKeysOnFlush dbid s =
     s\<lparr>client_of := (\<lambda>c. if c \<in> set (clients s) \<and>
                             (\<exists>wk\<in>set (watched_keys (client_of s c)). flush_hits dbid s wk)
                          then (client_of s c)\<lparr>flags := flags (client_of s c) OR CLIENT_DIRTY_CAS\<rparr>
                          else client_of s c)\<rparr>"
  by (simp add: touchWatchedKeysOnFlush_def flush_touch_clients_eq)

lemma watch_inv_same_index: "watch_inv s \<Longrightarrow> same_index s s' \<Longrightarrow> watch_inv s'"
  by (simp add: watch_inv_def same_index_def watchers_def)

lemma same_index_touch: "same_index s (touchWatchedKey d key s)"
  by (simp add: same_index_def touchWatchedKey_eq)

lemma same_index_flush: "same_index s (touchWatchedKeysOnFlush dbid s)"
  by (simp add: same_index_def touchWatchedKeysOnFlush_eq)

lemma watch_inv_no_watches: "no_watches s \<Longrightarrow> watch_inv s"
  by (simp add: no_watches_def watch_inv_def watchers_def entries_for_def)

lemma stable_point_watch_inv: "stable_point s \<Longrightarrow> watch_inv s"
proof (induction rule: stable_point.induct)
  case (sp_init s)
  then show ?case by (rule watch_inv_no_watches)
next
  case (sp_watch s c key)
  then show ?case by (simp add: watch_inv_watchForKey)
next
  case (sp_unwatch_all s c s')
  with unwatchAllKeys_ok [of s c] show ?case by auto
next
  case (sp_touch s d key)
  then show ?case using watch_inv_same_index same_index_touch by blast
next
  case (sp_touch_on_flush s dbid)
  then show ?case using watch_inv_same_index same_index_flush by blast
next
  case (sp_other s s')
  then show ?case using watch_inv_same_index by blast
qed

lemma unwatch_frameD:
  assumes "unwatch_frame c s s'"
  shows "client_of s' = (client_of s)(c := (client_of s c)\<lparr>watched_keys := []\<rparr>)"
    and "clients s' = clients s" and "monitors s' = monitors s" and "loading s' = loading s"
    and "masterhost s' = masterhost s" and "repl_slave_ro s' = repl_slave_ro s"
    and "dirty s' = dirty s" and "repl_backlog s' = repl_backlog s"
    and "server_multiCommand s' = server_multiCommand s"
    and "propagate_log s' = propagate_log s" and "monitor_feed s' = monitor_feed s"
    and "dict (db_of s' d) = dict (db_of s d)" and "db_id (db_of s' d) = db_id (db_of s d)"
proof -
  from assms have eq: "s' = s\<lparr>db_of := db_of s',
      client_of := (client_of s)(c := (client_of s c)\<lparr>watched_keys := []\<rparr>)\<rparr>"
    and dbs: "db_of s' d = (db_of s d)\<lparr>db_watched_keys := db_watched_keys (db_of s' d)\<rparr>"
    by (simp_all add: unwatch_frame_def)
  show "client_of s' = (client_of s)(c := (client_of s c)\<lparr>watched_keys := []\<rparr>)"
    by (subst eq) simp
  show "clients s' = clients s" by (subst eq) simp
  show "monitors s' = monitors s" by (subst eq) simp
  show "loading s' = loading s" by (subst eq) simp
  show "masterhost s' = masterhost s" by (subst eq) simp
  show "repl_slave_ro s' = repl_slave_ro s" by (subst eq) simp
  show "dirty s' = dirty s" by (subst eq) simp
  show "repl_backlog s' = repl_backlog s" by (subst eq) simp
  show "server_multiCommand s' = server_multiCommand s" by (subst eq) simp
  show "propagate_log s' = propagate_log s" by (subst eq) simp
  show "monitor_feed s' = monitor_feed s" by (subst eq) simp
  show "dict (db_of s' d) = dict (db_of s d)" by (subst dbs) simp
  show "db_id (db_of s' d) = db_id (db_of s d)" by (subst dbs) simp
qed

lemma not_watching_after:
  "watch_inv s \<Longrightarrow> watched_keys (client_of s c) = [] \<Longrightarrow> c \<notin> set (watchers s d k)"
  by (simp add: watch_inv_def entries_for_def flip: count_list_0_iff)

lemma discardTransaction_eq: "discardTransaction c s = unwatchAllKeys c (reset_tx c s)"
  by (simp add: discardTransaction_def reset_tx_def freeClientMultiState_def
      initClientMultiState_def upd_client_def Let_def)

lemma same_index_upd_client:
  "watched_keys (f (client_of s c)) = watched_keys (client_of s c) \<Longrightarrow>
   same_index s (upd_client c f s)"
  by (simp add: same_index_def upd_client_def)

lemma discardTransaction_ok:
  assumes "watch_inv s"
  shows "\<exists>s'. discardTransaction c s = Inr s' \<and> watch_inv s' \<and> unwatch_frame c (reset_tx c s) s'"
proof -
  have "same_index s (reset_tx c s)"
    unfolding reset_tx_def by (rule same_index_upd_client) simp
  with assms have "watch_inv (reset_tx c s)"
    by (rule watch_inv_same_index)
  from unwatchAllKeys_ok [OF this, of c] show ?thesis
    by (simp add: discardTransaction_eq)
qed

lemma handle_monitor_fields [simp]:
  "client_of (handle_monitor c s) = client_of s"
  "db_of (handle_monitor c s) = db_of s"
  "propagate_log (handle_monitor c s) = propagate_log s"
  "dirty (handle_monitor c s) = dirty s"
  "repl_backlog (handle_monitor c s) = repl_backlog s"
  "masterhost (handle_monitor c s) = masterhost s"
  "watchers (handle_monitor c s) d k = watchers s d k"
  by (simp_all add: handle_monitor_def replicationFeedMonitors_def watchers_def)

lemma watch_inv_handle_monitor [simp]: "watch_inv (handle_monitor c s) = watch_inv s"
  by (simp add: watch_inv_def)

lemma reset_tx_client:
  "client_of (reset_tx c s) c' =
     (if c' = c then (client_of s c)\<lparr>mstate := \<lparr>commands = [], cmd_flags = 0\<rparr>,
        flags := flags (client_of s c) AND NOT (CLIENT_MULTI OR CLIENT_DIRTY_CAS OR CLIENT_DIRTY_EXEC)\<rparr>
      else client_of s c')"
  by (simp add: reset_tx_def upd_client_def)

lemma reset_tx_fields [simp]:
  "db_of (reset_tx c s) = db_of s"
  "propagate_log (reset_tx c s) = propagate_log s"
  "dirty (reset_tx c s) = dirty s"
  "repl_backlog (reset_tx c s) = repl_backlog s"
  "masterhost (reset_tx c s) = masterhost s"
  by (simp_all add: reset_tx_def upd_client_def)

lemma addReply_fields [simp]:
  "db_of (addReply c r s) = db_of s"
  "propagate_log (addReply c r s) = propagate_log s"
  "dirty (addReply c r s) = dirty s"
  "repl_backlog (addReply c r s) = repl_backlog s"
  "masterhost (addReply c r s) = masterhost s"
  "client_of (addReply c r s) c' =
     (if c' = c then (client_of s c)\<lparr>reply := reply (client_of s c) @ [r]\<rparr> else client_of s c')"
  by (simp_all add: addReply_def upd_client_def)

lemma watch_inv_addReply [simp]: "watch_inv (addReply c r s) = watch_inv s"
  by (auto simp: watch_inv_def watchers_def)

text \<open>The discard path after a reply: what the three abort exits of EXEC and DISCARD share.\<close>

lemma discard_after_reply:
  assumes "watch_inv s"
  shows "\<exists>s'. discardTransaction c (addReply c r s) = Inr s' \<and> watch_inv s' \<and>
           tx_terminated c s' \<and>
           reply (client_of s' c) = reply (client_of s c) @ [r] \<and>
           argv (client_of s' c) = argv (client_of s c) \<and>
           flags (client_of s' c) = flags (client_of s c) AND
              NOT (CLIENT_MULTI OR CLIENT_DIRTY_CAS OR CLIENT_DIRTY_EXEC) \<and>
           (\<forall>c'. c' \<noteq> c \<longrightarrow> client_of s' c' = client_of s c') \<and>
           propagate_log s' = propagate_log s \<and> dirty s' = dirty s \<and>
           repl_backlog s' = repl_backlog s \<and> masterhost s' = masterhost s \<and>
           (\<forall>d. dict (db_of s' d) = dict (db_of s d))"
proof -
  from assms have "watch_inv (addReply c r s)" by simp
  from discardTransaction_ok [OF this, of c] obtain s' where
    s': "discardTransaction c (addReply c r s) = Inr s'" "watch_inv s'"
      "unwatch_frame c (reset_tx c (addReply c r s)) s'"
    by blast
  note fr = unwatch_frameD [OF s'(3)]
  have cl: "client_of s' c = (client_of s c)\<lparr>reply := reply (client_of s c) @ [r],
      mstate := \<lparr>commands = [], cmd_flags = 0\<rparr>,
      flags := flags (client_of s c) AND NOT (CLIENT_MULTI OR CLIENT_DIRTY_CAS OR CLIENT_DIRTY_EXEC),
      watched_keys := []\<rparr>"
    by (simp add: fr(1) reset_tx_client)
  have others: "c' \<noteq> c \<Longrightarrow> client_of s' c' = client_of s c'" for c'
    by (simp add: fr(1) reset_tx_client)
  have nw: "c \<notin> set (watchers s' d k)" for d k
    using s'(2) by (rule not_watching_after) (simp add: cl)
  have f: "flags (client_of s' c) =
      flags (client_of s c) AND NOT (CLIENT_MULTI OR CLIENT_DIRTY_CAS OR CLIENT_DIRTY_EXEC)"
    by (simp add: cl)
  have bits: "\<not> in_multi (client_of s' c)" "\<not> dirty_cas (client_of s' c)"
      "\<not> dirty_exec (client_of s' c)"
    unfolding in_multi_def dirty_cas_def dirty_exec_def f cleared_bits by simp_all
  have tt: "tx_terminated c s'"
    by (simp add: tx_terminated_def bits nw) (simp add: cl)
  have r: "reply (client_of s' c) = reply (client_of s c) @ [r]"
      "argv (client_of s' c) = argv (client_of s c)"
    by (simp_all add: cl)
  have rest: "propagate_log s' = propagate_log s" "dirty s' = dirty s"
      "repl_backlog s' = repl_backlog s" "masterhost s' = masterhost s"
      "\<forall>d. dict (db_of s' d) = dict (db_of s d)"
    by (simp_all add: fr)
  show ?thesis
    using s'(1,2) tt r f others rest by blast
qed

lemma tx_terminated_handle_monitor [simp]:
  "tx_terminated c (handle_monitor c' s) = tx_terminated c s"
  by (simp add: tx_terminated_def)

lemma exec_abort_exit:
  assumes "watch_inv s"
  shows "\<exists>s'. map_sum id (handle_monitor c) (discardTransaction c (addReply c r s)) = Inr s' \<and>
           watch_inv s' \<and> tx_terminated c s' \<and>
           reply (client_of s' c) = reply (client_of s c) @ [r] \<and>
           (\<forall>c'. c' \<noteq> c \<longrightarrow> client_of s' c' = client_of s c') \<and>
           propagate_log s' = propagate_log s \<and> dirty s' = dirty s \<and>
           repl_backlog s' = repl_backlog s \<and>
           (\<forall>d. dict (db_of s' d) = dict (db_of s d))"
proof -
  from discard_after_reply [OF assms, of c r] obtain s1 where
    s1: "discardTransaction c (addReply c r s) = Inr s1" "watch_inv s1" "tx_terminated c s1"
      "reply (client_of s1 c) = reply (client_of s c) @ [r]"
      "\<forall>c'. c' \<noteq> c \<longrightarrow> client_of s1 c' = client_of s c'"
      "propagate_log s1 = propagate_log s" "dirty s1 = dirty s"
      "repl_backlog s1 = repl_backlog s" "\<forall>d. dict (db_of s1 d) = dict (db_of s d)"
    by blast
  have "map_sum id (handle_monitor c) (discardTransaction c (addReply c r s)) =
      Inr (handle_monitor c s1)"
    by (simp add: s1(1))
  with s1 show ?thesis
    by simp
qed

lemma world_multi_facts:
  "watch_inv world_multi"
  "flags (client_of world_multi 0) = CLIENT_MULTI"
  "reply (client_of world_multi 0) = [shared_ok]"
  "watchers world_multi 0 ''a'' = [0]"
proof -
  have "watch_inv (watchForKey 0 key_a world0)"
    by (rule watch_inv_watchForKey [OF watch_inv_world0])
  then show "watch_inv world_multi"
    unfolding world_multi_def multiCommand_def addReplyError_def by simp
       (auto simp: watch_inv_def watchers_def upd_client_def)
  have f0: "flags (client_of (watchForKey 0 key_a world0) 0) = 0"
    by (simp add: watchForKey_def Let_def upd_client_def upd_db_def world0_def idle_client_def)
  show "flags (client_of world_multi 0) = CLIENT_MULTI"
    by (simp add: world_multi_def multiCommand_def f0 upd_client_def)
  show "reply (client_of world_multi 0) = [shared_ok]"
    by (simp add: world_multi_def multiCommand_def f0 upd_client_def)
       (simp add: watchForKey_def Let_def upd_client_def upd_db_def world0_def idle_client_def)
  show "watchers world_multi 0 ''a'' = [0]"
    by (simp add: world_multi_def multiCommand_def f0 addReply_def watchers_def upd_client_def)
       (simp add: watchForKey_def Let_def upd_client_def upd_db_def dictFetchValue_def
        dictAdd_def dictSetList_def world0_def idle_client_def key_a_def)
qed

lemma same_index_fields:
  "client_of s' = client_of s \<Longrightarrow> db_of s' = db_of s \<Longrightarrow> same_index s s'"
  by (simp add: same_index_def)

lemma watch_inv_upd_client:
  "watched_keys (f (client_of s c)) = watched_keys (client_of s c) \<Longrightarrow>
   watch_inv s \<Longrightarrow> watch_inv (upd_client c f s)"
  using same_index_upd_client watch_inv_same_index by blast

lemma watch_inv_flagTransaction: "watch_inv s \<Longrightarrow> watch_inv (flagTransaction c s)"
  by (simp add: flagTransaction_def watch_inv_upd_client)

lemma watch_inv_multiCommand: "watch_inv s \<Longrightarrow> watch_inv (multiCommand c s)"
  by (simp add: multiCommand_def addReplyError_def watch_inv_upd_client)

lemma watch_inv_queueMultiCommand: "watch_inv s \<Longrightarrow> watch_inv (queueMultiCommand c s)"
  by (simp add: queueMultiCommand_def watch_inv_upd_client)

lemma watch_inv_client_sends: "watch_inv s \<Longrightarrow> watch_inv (client_sends c rc args s)"
  by (simp add: client_sends_def watch_inv_upd_client)

lemma watch_inv_touchWatchedKey: "watch_inv s \<Longrightarrow> watch_inv (touchWatchedKey d key s)"
  using same_index_touch watch_inv_same_index by blast

lemma flagTransaction_client:
  "client_of (flagTransaction c s) c' =
     (if c' = c \<and> in_multi (client_of s c)
      then (client_of s c)\<lparr>flags := flags (client_of s c) OR CLIENT_DIRTY_EXEC\<rparr>
      else client_of s c')"
  by (simp add: flagTransaction_def in_multi_def upd_client_def)

lemma touchWatchedKey_client:
  "client_of (touchWatchedKey d key s) c =
     (if c \<in> set (watchers s d (ptr key))
      then (client_of s c)\<lparr>flags := flags (client_of s c) OR CLIENT_DIRTY_CAS\<rparr>
      else client_of s c)"
  by (simp add: touchWatchedKey_eq)

lemma world_dirty_facts:
  "watch_inv world_dirty_exec" "watch_inv world_dirty_cas" "watch_inv world_dirty_both"
  "flags (client_of world_dirty_exec 0) = CLIENT_MULTI OR CLIENT_DIRTY_EXEC"
  "flags (client_of world_dirty_cas 0) = CLIENT_MULTI OR CLIENT_DIRTY_CAS"
  "flags (client_of world_dirty_both 0) = (CLIENT_MULTI OR CLIENT_DIRTY_CAS) OR CLIENT_DIRTY_EXEC"
  "reply (client_of world_dirty_cas 0) = [shared_ok]"
  "reply (client_of world_dirty_both 0) = [shared_ok]"
proof -
  note wm = world_multi_facts
  have im: "in_multi (client_of world_multi 0)"
    by (simp add: in_multi_def wm flag_nonzero)
  show "watch_inv world_dirty_exec"
    unfolding world_dirty_exec_def by (intro watch_inv_flagTransaction wm)
  show c: "watch_inv world_dirty_cas"
    unfolding world_dirty_cas_def by (intro watch_inv_touchWatchedKey wm)
  show "watch_inv world_dirty_both"
    unfolding world_dirty_both_def by (intro watch_inv_flagTransaction c)
  have pa: "ptr key_a' = ''a''" by (simp add: key_a'_def)
  show "flags (client_of world_dirty_exec 0) = CLIENT_MULTI OR CLIENT_DIRTY_EXEC"
    by (simp add: world_dirty_exec_def flagTransaction_client im wm)
  show fc: "flags (client_of world_dirty_cas 0) = CLIENT_MULTI OR CLIENT_DIRTY_CAS"
    by (simp add: world_dirty_cas_def touchWatchedKey_client pa wm)
  have imc: "in_multi (client_of world_dirty_cas 0)"
    unfolding in_multi_def fc set_bit_keeps_others by (simp add: flag_nonzero)
  show "flags (client_of world_dirty_both 0) = (CLIENT_MULTI OR CLIENT_DIRTY_CAS) OR CLIENT_DIRTY_EXEC"
    by (simp add: world_dirty_both_def flagTransaction_client imc fc)
  show rc: "reply (client_of world_dirty_cas 0) = [shared_ok]"
    by (simp add: world_dirty_cas_def touchWatchedKey_client pa wm)
  show "reply (client_of world_dirty_both 0) = [shared_ok]"
    by (simp add: world_dirty_both_def flagTransaction_client imc rc)
qed

lemma world_dirty_bits:
  "in_multi (client_of world_dirty_cas 0)" "dirty_cas (client_of world_dirty_cas 0)"
  "\<not> dirty_exec (client_of world_dirty_cas 0)"
  "in_multi (client_of world_dirty_both 0)" "dirty_cas (client_of world_dirty_both 0)"
  "dirty_exec (client_of world_dirty_both 0)"
  unfolding in_multi_def dirty_cas_def dirty_exec_def world_dirty_facts
  by (simp_all add: CLIENT_MULTI_def CLIENT_DIRTY_CAS_def CLIENT_DIRTY_EXEC_def)

lemma exec_dirty_eq:
  assumes "in_multi (client_of s c)"
    and "dirty_exec (client_of s c) \<or> dirty_cas (client_of s c)"
  shows "execCommand call c s =
      Some (map_sum id (handle_monitor c) (discardTransaction c (addReply c
        (if dirty_exec (client_of s c) then shared_execaborterr else shared_nullmultibulk) s)))"
proof -
  from assms(2) have m: "flags (client_of s c) AND (CLIENT_DIRTY_CAS OR CLIENT_DIRTY_EXEC) \<noteq> 0"
    unfolding mask_cas_exec by (auto simp: dirty_exec_def dirty_cas_def)
  from assms(1) have im: "flags (client_of s c) AND CLIENT_MULTI \<noteq> 0"
    by (simp add: in_multi_def)
  show ?thesis
    unfolding execCommand_def Let_def using m im
    by (simp add: dirty_exec_def)
qed

lemma exec_readonly_eq:
  assumes "in_multi (client_of s c)"
    and "\<not> dirty_exec (client_of s c)" and "\<not> dirty_cas (client_of s c)"
    and "readonly_gate s c"
  shows "execCommand call c s =
      Some (map_sum id (handle_monitor c) (discardTransaction c (addReplyError c
        ''Transaction contains write commands but instance is now a read-only slave. EXEC aborted.'' s)))"
proof -
  from assms(2,3) have m: "flags (client_of s c) AND (CLIENT_DIRTY_CAS OR CLIENT_DIRTY_EXEC) = 0"
    using mask_cas_exec [of "flags (client_of s c)"] by (auto simp: dirty_exec_def dirty_cas_def)
  from assms(1) have im: "flags (client_of s c) AND CLIENT_MULTI \<noteq> 0"
    by (simp add: in_multi_def)
  show ?thesis
    unfolding execCommand_def Let_def using m im assms(4)
    by (simp add: readonly_gate_def)
qed

lemma world_queued_set_facts:
  "watch_inv world_queued_set"
  "flags (client_of world_queued_set 0) = CLIENT_MULTI"
  "reply (client_of world_queued_set 0) = [shared_ok]"
  "watchers world_queued_set 0 ''a'' = [0]"
  "mstate (client_of world_queued_set 0) =
     \<lparr>commands = [\<lparr>mc_argv = set_a_1, mc_cmd = cmd_set\<rparr>], cmd_flags = 0 OR CMD_WRITE\<rparr>"
  "loading world_queued_set = False" "repl_slave_ro world_queued_set = True"
  "masterhost world_queued_set = None" "repl_backlog world_queued_set = None"
  "dirty world_queued_set = 0" "propagate_log world_queued_set = []"
proof -
  note wm = world_multi_facts
  show "watch_inv world_queued_set"
    unfolding world_queued_set_def
    by (intro watch_inv_queueMultiCommand watch_inv_client_sends wm)
  have ms: "mstate (client_of world_multi 0) = \<lparr>commands = [], cmd_flags = 0\<rparr>"
    by (simp add: world_multi_def multiCommand_def addReply_def addReplyError_def upd_client_def)
       (simp add: watchForKey_def Let_def upd_client_def upd_db_def world0_def idle_client_def)
  show "flags (client_of world_queued_set 0) = CLIENT_MULTI"
    by (simp add: world_queued_set_def queueMultiCommand_def client_sends_def upd_client_def wm)
  show "reply (client_of world_queued_set 0) = [shared_ok]"
    by (simp add: world_queued_set_def queueMultiCommand_def client_sends_def upd_client_def wm)
  show "watchers world_queued_set 0 ''a'' = [0]"
    using wm(4)
    by (simp add: world_queued_set_def queueMultiCommand_def client_sends_def upd_client_def
        watchers_def)
  show "mstate (client_of world_queued_set 0) =
     \<lparr>commands = [\<lparr>mc_argv = set_a_1, mc_cmd = cmd_set\<rparr>], cmd_flags = 0 OR CMD_WRITE\<rparr>"
    by (simp add: world_queued_set_def queueMultiCommand_def client_sends_def upd_client_def ms
        cmd_set_def)
  have srv: "loading world0 = False" "repl_slave_ro world0 = True" "masterhost world0 = None"
      "repl_backlog world0 = None" "dirty world0 = 0" "propagate_log world0 = []"
    by (simp_all add: world0_def)
  show "loading world_queued_set = False" "repl_slave_ro world_queued_set = True"
    "masterhost world_queued_set = None" "repl_backlog world_queued_set = None"
    "dirty world_queued_set = 0" "propagate_log world_queued_set = []"
    by (simp_all add: world_queued_set_def queueMultiCommand_def client_sends_def upd_client_def
        world_multi_def multiCommand_def addReply_def addReplyError_def watchForKey_def Let_def
        upd_db_def srv)
qed

lemma world_follower_facts:
  "watch_inv world_follower" "watch_inv world_follower_cas"
  "readonly_gate world_follower 0" "readonly_gate world_follower_cas 0"
  "flags (client_of world_follower 0) = CLIENT_MULTI"
  "flags (client_of world_follower_cas 0) = CLIENT_MULTI OR CLIENT_DIRTY_CAS"
  "reply (client_of world_follower 0) = [shared_ok]"
  "reply (client_of world_follower_cas 0) = [shared_ok]"
proof -
  note q = world_queued_set_facts
  have "same_index world_queued_set world_follower"
    by (simp add: same_index_def world_follower_def)
  with q(1) show wf: "watch_inv world_follower"
    by (rule watch_inv_same_index)
  then show "watch_inv world_follower_cas"
    unfolding world_follower_cas_def by (rule watch_inv_touchWatchedKey)
  have cw: "CMD_WRITE \<noteq> 0" "(0 OR CMD_WRITE) AND CMD_WRITE \<noteq> 0" "CLIENT_MULTI AND CLIENT_MASTER = 0"
      "(CLIENT_MULTI OR CLIENT_DIRTY_CAS) AND CLIENT_MASTER = 0"
    by (simp_all add: CMD_WRITE_def CLIENT_MULTI_def CLIENT_MASTER_def CLIENT_DIRTY_CAS_def)
  show g: "readonly_gate world_follower 0"
    by (simp add: readonly_gate_def world_follower_def q cw)
  have pa: "ptr key_a' = ''a''" by (simp add: key_a'_def)
  have w: "watchers world_follower 0 ''a'' = [0]"
    using q(4) by (simp add: world_follower_def watchers_def)
  show "flags (client_of world_follower 0) = CLIENT_MULTI"
    by (simp add: world_follower_def q)
  show fc: "flags (client_of world_follower_cas 0) = CLIENT_MULTI OR CLIENT_DIRTY_CAS"
    by (simp add: world_follower_cas_def touchWatchedKey_client pa w) (simp add: world_follower_def q)
  show "readonly_gate world_follower_cas 0"
    using g unfolding readonly_gate_def fc
    by (simp add: world_follower_cas_def touchWatchedKey_eq pa w cw)
  show "reply (client_of world_follower 0) = [shared_ok]"
    by (simp add: world_follower_def q)
  show "reply (client_of world_follower_cas 0) = [shared_ok]"
    by (simp add: world_follower_cas_def touchWatchedKey_client pa w) (simp add: world_follower_def q)
qed

section \<open>Lemmas on the drain\<close>

lemma exec_drain_done:
  "\<not> j < length (commands (mstate (client_of s c))) \<Longrightarrow> exec_drain call c j mp s = Some (mp, s)"
  by (subst exec_drain.simps) simp

lemma install_entry_cmd:
  "cmd (client_of (install_entry c j s) c) = mc_cmd (commands (mstate (client_of s c)) ! j)"
  by (simp add: install_entry_def upd_client_def)

lemma exec_drain_step:
  "j < length (commands (mstate (client_of s c))) \<Longrightarrow>
   exec_drain call c j mp s =
     exec_drain call c (Suc j) (mp \<or> triggers_multi s c j)
       (if \<not> mp \<and> triggers_multi s c j then run_entry_after_multi call c j s
        else run_entry call c j s)"
  by (subst exec_drain.simps)
     (auto simp: Let_def install_entry_cmd triggers_multi_def run_entry_def
        run_entry_after_multi_def)

lemma install_entry_client:
  "client_of (install_entry c j s) c' =
     (if c' = c then (client_of s c)\<lparr>argv := mc_argv (commands (mstate (client_of s c)) ! j),
                                       cmd := mc_cmd (commands (mstate (client_of s c)) ! j)\<rparr>
      else client_of s c')"
  by (simp add: install_entry_def upd_client_def)

lemma execCommandPropagateMulti_client [simp]:
  "client_of (execCommandPropagateMulti c s) = client_of s"
  by (simp add: execCommandPropagateMulti_def propagate_def)

lemma store_entry_mstate:
  "mstate (client_of (store_entry c j s) c) =
     (mstate (client_of s c))\<lparr>commands := (commands (mstate (client_of s c)))
        [j := \<lparr>mc_argv = argv (client_of s c), mc_cmd = cmd (client_of s c)\<rparr>]\<rparr>"
  by (simp add: store_entry_def upd_client_def)

lemma store_entry_watched [simp]:
  "watched_keys (client_of (store_entry c j s) c') = watched_keys (client_of s c')"
  by (simp add: store_entry_def upd_client_def)

lemma call_frameD:
  assumes "call_frame call c"
  shows "mstate (client_of (call_entry call c s) c) = mstate (client_of s c)"
    and "watched_keys (client_of (call_entry call c s) c) = watched_keys (client_of s c)"
  using assms by (simp_all add: call_frame_def call_entry_def)

lemma run_entry_commands:
  assumes "call_frame call c"
  shows "\<exists>mc. commands (mstate (client_of (run_entry call c j s) c)) =
           (commands (mstate (client_of s c)))[j := mc]"
    and "\<exists>mc. commands (mstate (client_of (run_entry_after_multi call c j s) c)) =
           (commands (mstate (client_of s c)))[j := mc]"
    and "watched_keys (client_of (run_entry call c j s) c) = watched_keys (client_of s c)"
    and "watched_keys (client_of (run_entry_after_multi call c j s) c) =
           watched_keys (client_of s c)"
  by (auto simp: run_entry_def run_entry_after_multi_def store_entry_mstate
      call_frameD [OF assms] install_entry_client)

lemma run_entry_queue:
  assumes "call_frame call c"
  shows "length (commands (mstate (client_of (run_entry call c j s) c))) =
           length (commands (mstate (client_of s c)))"
    and "length (commands (mstate (client_of (run_entry_after_multi call c j s) c))) =
           length (commands (mstate (client_of s c)))"
    and "i \<noteq> j \<Longrightarrow> triggers_multi (run_entry call c j s) c i = triggers_multi s c i"
    and "i \<noteq> j \<Longrightarrow> triggers_multi (run_entry_after_multi call c j s) c i = triggers_multi s c i"
proof -
  from run_entry_commands(1) [OF assms, of j s] obtain mc where
    a: "commands (mstate (client_of (run_entry call c j s) c)) =
          (commands (mstate (client_of s c)))[j := mc]" ..
  from run_entry_commands(2) [OF assms, of j s] obtain mc' where
    b: "commands (mstate (client_of (run_entry_after_multi call c j s) c)) =
          (commands (mstate (client_of s c)))[j := mc']" ..
  show "length (commands (mstate (client_of (run_entry call c j s) c))) =
           length (commands (mstate (client_of s c)))"
    by (simp add: a)
  show "length (commands (mstate (client_of (run_entry_after_multi call c j s) c))) =
           length (commands (mstate (client_of s c)))"
    by (simp add: b)
  show "i \<noteq> j \<Longrightarrow> triggers_multi (run_entry call c j s) c i = triggers_multi s c i"
    by (simp add: triggers_multi_def a)
  show "i \<noteq> j \<Longrightarrow> triggers_multi (run_entry_after_multi call c j s) c i = triggers_multi s c i"
    by (simp add: triggers_multi_def b)
qed

lemma exec_drain_quiet:
  assumes fr: "call_frame call c"
  shows "j \<le> length (commands (mstate (client_of s c))) \<Longrightarrow>
         mp \<or> (\<forall>i. j \<le> i \<and> i < length (commands (mstate (client_of s c))) \<longrightarrow> \<not> triggers_multi s c i) \<Longrightarrow>
         exec_drain call c j mp s =
           Some (mp, run_entries call c [j..<length (commands (mstate (client_of s c)))] s)"
proof (induction "length (commands (mstate (client_of s c))) - j" arbitrary: j s)
  case 0
  then have "\<not> j < length (commands (mstate (client_of s c)))" by simp
  with 0 show ?case by (simp add: exec_drain_done)
next
  case (Suc k)
  let ?n = "length (commands (mstate (client_of s c)))"
  let ?s' = "run_entry call c j s"
  from Suc.hyps(2) have lt: "j < ?n" by simp
  from Suc.prems(2) lt have nofire: "\<not> (\<not> mp \<and> triggers_multi s c j)" by auto
  have len: "length (commands (mstate (client_of ?s' c))) = ?n"
    by (rule run_entry_queue(1) [OF fr])
  have "exec_drain call c j mp s = exec_drain call c (Suc j) (mp \<or> triggers_multi s c j) ?s'"
    using exec_drain_step [OF lt, of call mp] nofire by simp
  also have "mp \<or> triggers_multi s c j \<longleftrightarrow> mp" using nofire by auto
  also have "exec_drain call c (Suc j) mp ?s' =
      Some (mp, run_entries call c [Suc j..<length (commands (mstate (client_of ?s' c)))] ?s')"
  proof (rule Suc.hyps(1))
    show "k = length (commands (mstate (client_of ?s' c))) - Suc j"
      using Suc.hyps(2) len by simp
    show "Suc j \<le> length (commands (mstate (client_of ?s' c)))"
      using lt len by simp
    show "mp \<or> (\<forall>i. Suc j \<le> i \<and> i < length (commands (mstate (client_of ?s' c))) \<longrightarrow>
        \<not> triggers_multi ?s' c i)"
      using Suc.prems(2) by (auto simp: len run_entry_queue(3) [OF fr])
  qed
  finally show ?case
    using lt by (simp add: len upt_conv_Cons)
qed

lemma exec_drain_fires:
  assumes fr: "call_frame call c"
  shows "j \<le> i \<Longrightarrow> i < length (commands (mstate (client_of s c))) \<Longrightarrow>
         triggers_multi s c i \<Longrightarrow> (\<forall>k. j \<le> k \<and> k < i \<longrightarrow> \<not> triggers_multi s c k) \<Longrightarrow>
         exec_drain call c j False s =
           Some (True, run_entries call c [Suc i..<length (commands (mstate (client_of s c)))]
                   (run_entry_after_multi call c i (run_entries call c [j..<i] s)))"
proof (induction "i - j" arbitrary: j s)
  case 0
  then have ji: "j = i" by simp
  let ?s' = "run_entry_after_multi call c i s"
  have len: "length (commands (mstate (client_of ?s' c))) = length (commands (mstate (client_of s c)))"
    by (rule run_entry_queue(2) [OF fr])
  have "exec_drain call c i False s = exec_drain call c (Suc i) True ?s'"
    using exec_drain_step [OF 0(3), of call False] 0(4) by simp
  also have "\<dots> = Some (True, run_entries call c [Suc i..<length (commands (mstate (client_of ?s' c)))] ?s')"
    by (rule exec_drain_quiet [OF fr]) (use 0(3) len in simp_all)
  finally show ?case
    by (simp add: ji len)
next
  case (Suc d)
  let ?s' = "run_entry call c j s"
  from Suc.hyps(2) have lt: "j < i" by simp
  with Suc.prems have jn: "j < length (commands (mstate (client_of s c)))" and nt: "\<not> triggers_multi s c j"
    by auto
  have len: "length (commands (mstate (client_of ?s' c))) = length (commands (mstate (client_of s c)))"
    by (rule run_entry_queue(1) [OF fr])
  have "exec_drain call c j False s = exec_drain call c (Suc j) False ?s'"
    using exec_drain_step [OF jn, of call False] nt by simp
  also have "\<dots> = Some (True, run_entries call c [Suc i..<length (commands (mstate (client_of ?s' c)))]
                   (run_entry_after_multi call c i (run_entries call c [Suc j..<i] ?s')))"
  proof (rule Suc.hyps(1))
    show "d = i - Suc j" using Suc.hyps(2) by simp
    show "Suc j \<le> i" using lt by simp
    show "i < length (commands (mstate (client_of ?s' c)))" using Suc.prems(2) len by simp
    show "triggers_multi ?s' c i"
      using Suc.prems(3) lt by (simp add: run_entry_queue(3) [OF fr])
    show "\<forall>k. Suc j \<le> k \<and> k < i \<longrightarrow> \<not> triggers_multi ?s' c k"
      using Suc.prems(4) by (auto simp: run_entry_queue(3) [OF fr])
  qed
  finally show ?case
    using lt by (simp add: len upt_conv_Cons)
qed

lemma first_trigger_None:
  "(first_trigger s c = None) =
     (\<forall>j<length (commands (mstate (client_of s c))). \<not> triggers_multi s c j)"
  by (auto simp: first_trigger_def find_None_iff)

lemma first_trigger_Some:
  "(first_trigger s c = Some i) =
     (i < length (commands (mstate (client_of s c))) \<and> triggers_multi s c i \<and>
      (\<forall>j<i. \<not> triggers_multi s c j))"
  by (auto simp: first_trigger_def find_Some_iff)

lemma exec_drain_outcome:
  assumes "call_frame call c"
  shows "exec_drain call c 0 False s = Some (drain_outcome call c s)"
proof (cases "first_trigger s c")
  case None
  then have "\<forall>i. 0 \<le> i \<and> i < length (commands (mstate (client_of s c))) \<longrightarrow> \<not> triggers_multi s c i"
    by (simp add: first_trigger_None)
  then have "exec_drain call c 0 False s =
      Some (False, run_entries call c [0..<length (commands (mstate (client_of s c)))] s)"
    by (intro exec_drain_quiet [OF assms]) simp_all
  with None show ?thesis by (simp add: drain_outcome_def)
next
  case (Some i)
  then have i: "i < length (commands (mstate (client_of s c)))" "triggers_multi s c i"
      "\<forall>k. 0 \<le> k \<and> k < i \<longrightarrow> \<not> triggers_multi s c k"
    by (simp_all add: first_trigger_Some)
  have "exec_drain call c 0 False s =
      Some (True, run_entries call c [Suc i..<length (commands (mstate (client_of s c)))]
                   (run_entry_after_multi call c i (run_entries call c [0..<i] s)))"
    by (rule exec_drain_fires [OF assms _ i]) simp
  with Some show ?thesis by (simp add: drain_outcome_def)
qed

lemma run_entries_watched:
  assumes "call_frame call c"
  shows "watched_keys (client_of (run_entries call c js s) c) = watched_keys (client_of s c)"
  by (induction js arbitrary: s) (simp_all add: run_entry_commands(3) [OF assms])

lemma drain_outcome_watched:
  assumes "call_frame call c"
  shows "watched_keys (client_of (snd (drain_outcome call c s)) c) = watched_keys (client_of s c)"
  by (simp add: drain_outcome_def run_entries_watched [OF assms] run_entry_commands(4) [OF assms]
      split: option.splits)

lemma run_entry_log:
  assumes "call_quiet call c"
  shows "propagate_log (run_entry call c j s) = propagate_log s"
  using assms
  by (simp add: run_entry_def store_entry_def call_entry_def install_entry_def upd_client_def
      call_quiet_def)

lemma run_entries_log:
  assumes "call_quiet call c"
  shows "propagate_log (run_entries call c js s) = propagate_log s"
  by (induction js arbitrary: s) (simp_all add: run_entry_log [OF assms])

lemma run_entry_after_multi_log:
  assumes "call_quiet call c"
  shows "propagate_log (run_entry_after_multi call c j s) =
     propagate_log s @ [Propagate (server_multiCommand s) (db_id (db_of s (db (client_of s c))))
                          [''MULTI''] (PROPAGATE_AOF OR PROPAGATE_REPL)]"
  using assms
  by (simp add: run_entry_after_multi_def store_entry_def call_entry_def install_entry_def
      upd_client_def call_quiet_def execCommandPropagateMulti_def propagate_def)

lemma drain_outcome_log:
  assumes "call_quiet call c"
  shows "case first_trigger s c of
           None \<Rightarrow> propagate_log (snd (drain_outcome call c s)) = propagate_log s
         | Some i \<Rightarrow> \<exists>rc dbid. propagate_log (snd (drain_outcome call c s)) =
             propagate_log s @ [Propagate rc dbid [''MULTI''] (PROPAGATE_AOF OR PROPAGATE_REPL)]"
  by (simp add: drain_outcome_def run_entries_log [OF assms] run_entry_after_multi_log [OF assms]
      split: option.splits)

lemma discardTransaction_unwatched:
  "watched_keys (client_of s c) = [] \<Longrightarrow> discardTransaction c s = Inr (reset_tx c s)"
  by (simp add: discardTransaction_eq unwatchAllKeys_def reset_tx_def upd_client_def)

lemma exec_normal_with:
  assumes im: "in_multi (client_of s c)"
    and de: "\<not> dirty_exec (client_of s c)" and dc: "\<not> dirty_cas (client_of s c)"
    and gate: "\<not> readonly_gate s c"
    and s1: "unwatchAllKeys c s = Inr s1" "unwatch_frame c s s1"
    and dr: "exec_drain call c 0 False
               (addReplyMultiBulkLen c (length (commands (mstate (client_of s c)))) s1) = Some (mp, s3)"
    and w3: "watched_keys (client_of s3 c) = []"
  shows "execCommand call c s = Some (Inr (exec_after_drain c s mp s3))"
proof -
  note f1 = unwatch_frameD [OF s1(2)]
  let ?s4 = "upd_client c (\<lambda>cl. cl\<lparr>argv := argv (client_of s c), cmd := cmd (client_of s c)\<rparr>) s3"
  have "watched_keys (client_of ?s4 c) = []"
    using w3 by (simp add: upd_client_def)
  then have dt: "discardTransaction c ?s4 = Inr (reset_tx c ?s4)"
    by (rule discardTransaction_unwatched)
  from de dc have m: "flags (client_of s c) AND (CLIENT_DIRTY_CAS OR CLIENT_DIRTY_EXEC) = 0"
    using mask_cas_exec [of "flags (client_of s c)"] by (auto simp: dirty_exec_def dirty_cas_def)
  from im have imf: "flags (client_of s c) AND CLIENT_MULTI \<noteq> 0"
    by (simp add: in_multi_def)
  have cl1: "argv (client_of s1 c) = argv (client_of s c)" "cmd (client_of s1 c) = cmd (client_of s c)"
    "mstate (client_of s1 c) = mstate (client_of s c)"
    by (simp_all add: f1(1))
  show ?thesis
    unfolding execCommand_def Let_def using m imf gate
    by (auto simp: readonly_gate_def s1(1) cl1 dr dt exec_after_drain_def)
qed

lemma first_trigger_cong:
  "mstate (client_of s' c) = mstate (client_of s c) \<Longrightarrow> first_trigger s' c = first_trigger s c"
  by (simp add: first_trigger_def triggers_multi_def [abs_def])

lemma exec_normal_eq:
  assumes inv: "watch_inv s" and fr: "call_frame call c"
    and im: "in_multi (client_of s c)"
    and de: "\<not> dirty_exec (client_of s c)" and dc: "\<not> dirty_cas (client_of s c)"
    and gate: "\<not> readonly_gate s c"
  shows "\<exists>s1 mp s3. unwatchAllKeys c s = Inr s1 \<and> unwatch_frame c s s1 \<and> watch_inv s1 \<and>
           drain_outcome call c
             (addReplyMultiBulkLen c (length (commands (mstate (client_of s c)))) s1) = (mp, s3) \<and>
           exec_drain call c 0 False
             (addReplyMultiBulkLen c (length (commands (mstate (client_of s c)))) s1) = Some (mp, s3) \<and>
           mp = (first_trigger s c \<noteq> None) \<and>
           execCommand call c s = Some (Inr (exec_after_drain c s mp s3))"
proof -
  from unwatchAllKeys_ok [OF inv, of c] obtain s1 where
    s1: "unwatchAllKeys c s = Inr s1" "watch_inv s1" "unwatch_frame c s s1"
    by blast
  note f1 = unwatch_frameD [OF s1(3)]
  let ?n = "length (commands (mstate (client_of s c)))"
  let ?s2 = "addReplyMultiBulkLen c ?n s1"
  obtain mp s3 where out: "drain_outcome call c ?s2 = (mp, s3)"
    by (cases "drain_outcome call c ?s2")
  have dr: "exec_drain call c 0 False ?s2 = Some (mp, s3)"
    using exec_drain_outcome [OF fr, of ?s2] out by simp
  have ms: "mstate (client_of ?s2 c) = mstate (client_of s c)"
    by (simp add: addReplyMultiBulkLen_def f1(1))
  have "mp = (first_trigger ?s2 c \<noteq> None)"
    using out by (auto simp: drain_outcome_def split: option.splits)
  then have mpt: "mp = (first_trigger s c \<noteq> None)"
    by (simp add: first_trigger_cong [OF ms])
  have "watched_keys (client_of ?s2 c) = []"
    by (simp add: addReplyMultiBulkLen_def f1(1))
  with drain_outcome_watched [OF fr, of ?s2] out have w3: "watched_keys (client_of s3 c) = []"
    by simp
  from exec_normal_with [OF im de dc gate s1(1,3) dr w3] s1 out dr mpt
  show ?thesis by blast
qed

lemma exec_after_drain_client:
  "client_of (exec_after_drain c s mp s3) c' =
     (if c' = c
      then (client_of s3 c)\<lparr>argv := argv (client_of s c), cmd := cmd (client_of s c),
             mstate := \<lparr>commands = [], cmd_flags = 0\<rparr>,
             flags := flags (client_of s3 c) AND
               NOT (CLIENT_MULTI OR CLIENT_DIRTY_CAS OR CLIENT_DIRTY_EXEC)\<rparr>
      else client_of s3 c')"
  by (simp add: exec_after_drain_def exec_finish_def feedReplicationBacklog_def Let_def
      reset_tx_def upd_client_def)

lemma exec_after_drain_fields:
  "dirty (exec_after_drain c s mp s3) = (if mp then dirty s3 + 1 else dirty s3)"
  "repl_backlog (exec_after_drain c s mp s3) =
     (if mp \<and> masterhost s = None \<and> masterhost s3 \<noteq> None
      then map_option (\<lambda>b. b @ execcmd) (repl_backlog s3) else repl_backlog s3)"
  "propagate_log (exec_after_drain c s mp s3) = propagate_log s3"
  "db_of (exec_after_drain c s mp s3) = db_of s3"
  "masterhost (exec_after_drain c s mp s3) = masterhost s3"
  by (auto simp: exec_after_drain_def exec_finish_def feedReplicationBacklog_def Let_def
      reset_tx_def upd_client_def)

section \<open>Facts about the concrete worlds\<close>

lemma world_reads_eq:
  "world_reads = world0\<lparr>client_of := (\<lambda>c. idle_client)
     (0 := \<lparr>db = 0, argv = get_a, cmd = cmd_get, flags = CLIENT_MULTI,
            mstate = \<lparr>commands = [\<lparr>mc_argv = get_a, mc_cmd = cmd_get\<rparr>], cmd_flags = CMD_READONLY\<rparr>,
            watched_keys = [], reply = [shared_ok]\<rparr>)\<rparr>"
  by (simp add: world_reads_def queueMultiCommand_def client_sends_def multiCommand_def
      addReply_def upd_client_def world0_def idle_client_def cmd_get_def)

lemma world_batch_eq:
  "world_batch = world0\<lparr>client_of := (\<lambda>c. idle_client)
     (0 := \<lparr>db = 0, argv = set_a_1, cmd = cmd_set, flags = CLIENT_MULTI,
            mstate = \<lparr>commands = [\<lparr>mc_argv = get_a, mc_cmd = cmd_get\<rparr>,
                                  \<lparr>mc_argv = set_a_1, mc_cmd = cmd_set\<rparr>,
                                  \<lparr>mc_argv = set_a_1, mc_cmd = cmd_set\<rparr>],
                      cmd_flags = (CMD_READONLY OR CMD_WRITE) OR CMD_WRITE\<rparr>,
            watched_keys = [], reply = [shared_ok]\<rparr>)\<rparr>"
  by (simp add: world_batch_def world_reads_eq queueMultiCommand_def client_sends_def
      upd_client_def world0_def cmd_set_def)

lemma world_replicaof_eq:
  "world_replicaof = world0\<lparr>client_of := (\<lambda>c. idle_client)
     (0 := \<lparr>db = 0, argv = slaveof_args, cmd = cmd_slaveof, flags = CLIENT_MULTI,
            mstate = \<lparr>commands = [\<lparr>mc_argv = set_a_1, mc_cmd = cmd_set\<rparr>,
                                  \<lparr>mc_argv = slaveof_args, mc_cmd = cmd_slaveof\<rparr>],
                      cmd_flags = CMD_WRITE OR CMD_ADMIN\<rparr>,
            watched_keys = [], reply = [shared_ok]\<rparr>)\<rparr>"
  by (simp add: world_replicaof_def queueMultiCommand_def client_sends_def multiCommand_def
      addReply_def upd_client_def world0_def idle_client_def cmd_set_def cmd_slaveof_def)

lemma upt_small: "[0..<3] = [0, 1, 2]" "[0..<2] = [0, 1]" "[0..<1] = [0]" "[2..<3] = [2]" "[1..<2] = [1]"
  by (simp_all add: upt_rec)

lemma cmd_flag_tests:
  "CMD_READONLY AND (CMD_READONLY OR CMD_ADMIN) \<noteq> 0"
  "CMD_ADMIN AND (CMD_READONLY OR CMD_ADMIN) \<noteq> 0"
  "CMD_WRITE AND (CMD_READONLY OR CMD_ADMIN) = 0"
  "CMD_READONLY \<noteq> 0" "CMD_ADMIN \<noteq> 0" "CMD_WRITE \<noteq> 0"
  by (simp_all add: CMD_READONLY_def CMD_ADMIN_def CMD_WRITE_def)

lemma frame_nothing: "call_frame call_nothing c" "call_quiet call_nothing c"
  by (simp_all add: call_frame_def call_quiet_def call_nothing_def)

lemma frame_replicaof: "call_frame call_replicaof c" "call_quiet call_replicaof c"
  by (simp_all add: call_frame_def call_quiet_def call_replicaof_def)

lemma world_multi_more:
  "in_multi (client_of world_multi 0)" "\<not> dirty_exec (client_of world_multi 0)"
  "\<not> dirty_cas (client_of world_multi 0)"
  "commands (mstate (client_of world_multi 0)) = []" "BI6 (client_of world_multi 0)"
  "propagate_log world_multi = []" "dirty world_multi = 0"
proof -
  note wm = world_multi_facts
  show "in_multi (client_of world_multi 0)" "\<not> dirty_exec (client_of world_multi 0)"
    "\<not> dirty_cas (client_of world_multi 0)"
    unfolding in_multi_def dirty_cas_def dirty_exec_def wm
    by (simp_all add: CLIENT_MULTI_def CLIENT_DIRTY_CAS_def CLIENT_DIRTY_EXEC_def)
  have ms: "mstate (client_of world_multi 0) = \<lparr>commands = [], cmd_flags = 0\<rparr>"
    by (simp add: world_multi_def multiCommand_def addReply_def addReplyError_def upd_client_def)
       (simp add: watchForKey_def Let_def upd_client_def upd_db_def world0_def idle_client_def)
  show "commands (mstate (client_of world_multi 0)) = []" "BI6 (client_of world_multi 0)"
    by (simp_all add: BI6_def ms)
  show "propagate_log world_multi = []" "dirty world_multi = 0"
    by (simp_all add: world_multi_def multiCommand_def addReply_def addReplyError_def
        upd_client_def watchForKey_def Let_def upd_db_def world0_def)
qed

lemma replicaof_world_facts:
  "watch_inv (world_replicaof\<lparr>repl_backlog := b\<rparr>)"
  "unwatchAllKeys 0 (world_replicaof\<lparr>repl_backlog := b\<rparr>) = Inr (world_replicaof\<lparr>repl_backlog := b\<rparr>)"
  "in_multi (client_of (world_replicaof\<lparr>repl_backlog := b\<rparr>) 0)"
  "\<not> dirty_exec (client_of (world_replicaof\<lparr>repl_backlog := b\<rparr>) 0)"
  "\<not> dirty_cas (client_of (world_replicaof\<lparr>repl_backlog := b\<rparr>) 0)"
  "\<not> readonly_gate (world_replicaof\<lparr>repl_backlog := b\<rparr>) 0"
  "masterhost (world_replicaof\<lparr>repl_backlog := b\<rparr>) = None"
  "dirty (world_replicaof\<lparr>repl_backlog := b\<rparr>) = 0"
  "length (commands (mstate (client_of (world_replicaof\<lparr>repl_backlog := b\<rparr>) 0))) = 2"
proof -
  let ?W = "world_replicaof\<lparr>repl_backlog := b\<rparr>"
  have "no_watches ?W"
    by (simp add: no_watches_def world_replicaof_eq world0_def idle_client_def)
  then show "watch_inv ?W" by (rule watch_inv_no_watches)
  show "unwatchAllKeys 0 ?W = Inr ?W"
    by (simp add: unwatchAllKeys_def world_replicaof_eq)
  have fl: "flags (client_of ?W 0) = CLIENT_MULTI"
    by (simp add: world_replicaof_eq)
  show "in_multi (client_of ?W 0)" "\<not> dirty_exec (client_of ?W 0)" "\<not> dirty_cas (client_of ?W 0)"
    unfolding in_multi_def dirty_cas_def dirty_exec_def fl
    by (simp_all add: CLIENT_MULTI_def CLIENT_DIRTY_CAS_def CLIENT_DIRTY_EXEC_def)
  show "\<not> readonly_gate ?W 0" "masterhost ?W = None" "dirty ?W = 0"
    by (simp_all add: readonly_gate_def world_replicaof_eq world0_def)
  show "length (commands (mstate (client_of ?W 0))) = 2"
    by (simp add: world_replicaof_eq)
qed

lemma replicaof_drain:
  "\<exists>s3. drain_outcome call_replicaof 0
           (addReplyMultiBulkLen 0 2 (world_replicaof\<lparr>repl_backlog := b\<rparr>)) = (True, s3) \<and>
         masterhost s3 = Some ''10.0.0.1'' \<and> dirty s3 = 0 \<and> repl_backlog s3 = b \<and>
         propagate_log s3 = [Propagate cmd_multi 0 [''MULTI''] (PROPAGATE_AOF OR PROPAGATE_REPL)]"
proof -
  let ?W2 = "addReplyMultiBulkLen 0 2 (world_replicaof\<lparr>repl_backlog := b\<rparr>)"
  have ft: "first_trigger ?W2 0 = Some 0"
    by (simp add: first_trigger_def triggers_multi_def addReplyMultiBulkLen_def addReply_def
        upd_client_def world_replicaof_eq upt_small cmd_set_def cmd_flag_tests)
  have n: "length (commands (mstate (client_of ?W2 0))) = 2"
    by (simp add: addReplyMultiBulkLen_def addReply_def upd_client_def world_replicaof_eq)
  let ?s3 = "run_entries call_replicaof 0 [Suc 0..<2] (run_entry_after_multi call_replicaof 0 0 ?W2)"
  have out: "drain_outcome call_replicaof 0 ?W2 = (True, ?s3)"
    by (simp add: drain_outcome_def ft n)
  have lg: "propagate_log ?s3 = [Propagate cmd_multi 0 [''MULTI''] (PROPAGATE_AOF OR PROPAGATE_REPL)]"
    by (simp add: run_entries_log run_entry_log frame_replicaof run_entry_after_multi_log)
       (simp add: addReplyMultiBulkLen_def addReply_def upd_client_def world_replicaof_eq world0_def)
  have fields: "masterhost ?s3 = Some ''10.0.0.1''" "dirty ?s3 = 0" "repl_backlog ?s3 = b"
    by (simp_all add: upt_rec run_entry_def run_entry_after_multi_def store_entry_def
        call_entry_def install_entry_def execCommandPropagateMulti_def propagate_def
        call_replicaof_def addReplyMultiBulkLen_def addReply_def upd_client_def
        world_replicaof_eq world0_def cmd_set_def cmd_slaveof_def)
  from out lg fields show ?thesis by blast
qed

lemma world_replicaof_backlog_None: "world_replicaof\<lparr>repl_backlog := None\<rparr> = world_replicaof"
  by (simp add: world_replicaof_eq world0_def)

section \<open>Lemmas on WATCH\<close>

lemma watchForKey_noop:
  "already_watched (db (client_of s c)) key (watched_keys (client_of s c)) \<Longrightarrow>
   watchForKey c key s = s"
  by (simp add: watchForKey_def)

lemma watchForKey_client:
  "client_of (watchForKey c key s) c' =
     (client_of s c')\<lparr>watched_keys := watched_keys (client_of (watchForKey c key s) c')\<rparr>"
  by (simp add: watchForKey_def Let_def upd_client_def upd_db_def)

lemma watchForKey_client_fields [simp]:
  "db (client_of (watchForKey c key s) c') = db (client_of s c')"
  "flags (client_of (watchForKey c key s) c') = flags (client_of s c')"
  "argv (client_of (watchForKey c key s) c') = argv (client_of s c')"
  "reply (client_of (watchForKey c key s) c') = reply (client_of s c')"
  "mstate (client_of (watchForKey c key s) c') = mstate (client_of s c')"
  by (subst watchForKey_client, simp)+

lemma already_watched_append:
  "already_watched d key (wks @ wks2) = (already_watched d key wks \<or> already_watched d key wks2)"
  by (induction wks) auto

lemma watched_after_watchForKey:
  "already_watched (db (client_of s c)) key (watched_keys (client_of (watchForKey c key s) c))"
  by (simp add: watched_keys_watchForKey already_watched_append equalStringObjects_def)

lemma watched_kept_by_watchForKey:
  "already_watched d k (watched_keys (client_of s c)) \<Longrightarrow>
   already_watched d k (watched_keys (client_of (watchForKey c key s) c))"
  by (simp add: watched_keys_watchForKey already_watched_append)

lemma watchForKey_twice:
  assumes "ptr key' = ptr key"
  shows "watchForKey c key' (watchForKey c key s) = watchForKey c key s"
proof (rule watchForKey_noop)
  have "already_watched (db (client_of s c)) key' (watched_keys (client_of (watchForKey c key s) c)) =
      already_watched (db (client_of s c)) key (watched_keys (client_of (watchForKey c key s) c))"
    by (simp add: already_watched_iff assms)
  then show "already_watched (db (client_of (watchForKey c key s) c)) key'
      (watched_keys (client_of (watchForKey c key s) c))"
    by (simp add: watched_after_watchForKey)
qed

lemma fold_watch_fields [simp]:
  "db (client_of (fold (watchForKey c) keys s) c') = db (client_of s c')"
  "flags (client_of (fold (watchForKey c) keys s) c') = flags (client_of s c')"
  "argv (client_of (fold (watchForKey c) keys s) c') = argv (client_of s c')"
  by (induction keys arbitrary: s) simp_all

lemma fold_watch_kept:
  "already_watched d k (watched_keys (client_of s c)) \<Longrightarrow>
   already_watched d k (watched_keys (client_of (fold (watchForKey c) keys s) c))"
  by (induction keys arbitrary: s) (simp_all add: watched_kept_by_watchForKey)

lemma fold_watch_all:
  "key \<in> set keys \<Longrightarrow>
   already_watched (db (client_of s c)) key (watched_keys (client_of (fold (watchForKey c) keys s) c))"
proof (induction keys arbitrary: s)
  case Nil
  then show ?case by simp
next
  case (Cons a keys)
  show ?case
  proof (cases "key = a")
    case True
    have "already_watched (db (client_of s c)) a (watched_keys (client_of (watchForKey c a s) c))"
      by (rule watched_after_watchForKey)
    then have "already_watched (db (client_of s c)) a
        (watched_keys (client_of (fold (watchForKey c) keys (watchForKey c a s)) c))"
      by (rule fold_watch_kept)
    with True show ?thesis by simp
  next
    case False
    with Cons.prems have "key \<in> set keys" by simp
    from Cons.IH [OF this, of "watchForKey c a s"] show ?thesis by simp
  qed
qed

lemma fold_watch_noop:
  "(\<And>key. key \<in> set keys \<Longrightarrow>
      already_watched (db (client_of s c)) key (watched_keys (client_of s c))) \<Longrightarrow>
   fold (watchForKey c) keys s = s"
  by (induction keys) (simp_all add: watchForKey_noop)

lemma watchCommand_twice:
  assumes "\<not> in_multi (client_of s c)"
  shows "watchCommand c (watchCommand c s) = addReply c shared_ok (watchCommand c s)"
proof -
  let ?keys = "tl (argv (client_of s c))"
  let ?s1 = "fold (watchForKey c) ?keys s"
  let ?s2 = "addReply c shared_ok ?s1"
  from assms have nm: "flags (client_of s c) AND CLIENT_MULTI = 0"
    by (simp add: in_multi_def)
  then have w1: "watchCommand c s = ?s2"
    by (simp add: watchCommand_def)
  have cl2: "flags (client_of ?s2 c) = flags (client_of s c)" "argv (client_of ?s2 c) = argv (client_of s c)"
      "db (client_of ?s2 c) = db (client_of s c)"
      "watched_keys (client_of ?s2 c) = watched_keys (client_of ?s1 c)"
    by simp_all
  have "fold (watchForKey c) ?keys ?s2 = ?s2"
  proof (rule fold_watch_noop)
    fix key assume "key \<in> set ?keys"
    then show "already_watched (db (client_of ?s2 c)) key (watched_keys (client_of ?s2 c))"
      unfolding cl2 by (rule fold_watch_all)
  qed
  then have "watchCommand c ?s2 = addReply c shared_ok ?s2"
    using nm by (simp add: watchCommand_def cl2)
  then show ?thesis by (simp only: w1)
qed

lemma BI2_same_index: "BI2 s \<Longrightarrow> same_index s s' \<Longrightarrow> BI2 s'"
  by (simp add: BI2_def same_index_def)

lemma BI2_watchForKey: "BI2 s \<Longrightarrow> BI2 (watchForKey c key s)"
  unfolding BI2_def
proof (intro allI)
  fix c' d k
  assume a: "\<forall>c d k. length (entries_for d k (watched_keys (client_of s c))) \<le> 1"
  then have old: "length (entries_for d k (watched_keys (client_of s c'))) \<le> 1"
    by blast
  show "length (entries_for d k (watched_keys (client_of (watchForKey c key s) c'))) \<le> 1"
    using old
    by (auto simp: watched_keys_watchForKey already_watched_iff entries_for_def)
qed

lemma stable_point_BI2: "stable_point s \<Longrightarrow> BI2 s"
proof (induction rule: stable_point.induct)
  case (sp_init s)
  then show ?case by (simp add: BI2_def no_watches_def entries_for_def)
next
  case (sp_watch s c key)
  then show ?case by (simp add: BI2_watchForKey)
next
  case (sp_unwatch_all s c s')
  from unwatchAllKeys_ok [OF stable_point_watch_inv [OF sp_unwatch_all.hyps(1)], of c]
    sp_unwatch_all.hyps(2)
  have "unwatch_frame c s s'" by auto
  from unwatch_frameD(1) [OF this] sp_unwatch_all.IH show ?case
    by (simp add: BI2_def entries_for_def)
next
  case (sp_touch s d key)
  then show ?case using BI2_same_index same_index_touch by blast
next
  case (sp_touch_on_flush s dbid)
  then show ?case using BI2_same_index same_index_flush by blast
next
  case (sp_other s s')
  then show ?case using BI2_same_index by blast
qed

section \<open>Lemmas on the dirty flags\<close>

lemma multiCommand_flags:
  "flags (client_of (multiCommand c s) c') =
     (if c' = c \<and> \<not> in_multi (client_of s c) then flags (client_of s c) OR CLIENT_MULTI
      else flags (client_of s c'))"
  by (simp add: multiCommand_def addReplyError_def in_multi_def upd_client_def)

lemma multiCommand_reply:
  "\<not> in_multi (client_of s c) \<Longrightarrow>
   reply (client_of (multiCommand c s) c) = reply (client_of s c) @ [shared_ok]"
  by (simp add: multiCommand_def in_multi_def upd_client_def)

lemma dirty_cas_multiCommand:
  "dirty_cas (client_of (multiCommand c s) c') = dirty_cas (client_of s c')"
  unfolding dirty_cas_def multiCommand_flags
  by (simp add: set_bit_keeps_others)

lemma queueMultiCommand_flags [simp]:
  "flags (client_of (queueMultiCommand c s) c') = flags (client_of s c')"
  "reply (client_of (queueMultiCommand c s) c') = reply (client_of s c')"
  by (simp_all add: queueMultiCommand_def upd_client_def)

lemma funpow_queue:
  "flags (client_of ((queueMultiCommand c ^^ n) s) c') = flags (client_of s c')"
  "reply (client_of ((queueMultiCommand c ^^ n) s) c') = reply (client_of s c')"
  "watch_inv s \<Longrightarrow> watch_inv ((queueMultiCommand c ^^ n) s)"
  by (induction n) (simp_all add: watch_inv_queueMultiCommand)

lemma dirty_cas_flagTransaction:
  "dirty_cas (client_of (flagTransaction c s) c') = dirty_cas (client_of s c')"
  unfolding dirty_cas_def flagTransaction_client
  by (simp add: set_bit_keeps_others)

lemma watchCommand_flags:
  "flags (client_of (watchCommand c s) c') = flags (client_of s c')"
  by (simp add: watchCommand_def addReplyError_def)

lemma dirty_cas_touch:
  "dirty_cas (client_of s c') \<Longrightarrow> dirty_cas (client_of (touchWatchedKey d key s) c')"
  by (simp add: touchWatchedKey_client dirty_cas_set)

lemma dirty_cas_flush:
  "dirty_cas (client_of s c') \<Longrightarrow> dirty_cas (client_of (touchWatchedKeysOnFlush dbid s) c')"
  by (simp add: touchWatchedKeysOnFlush_eq dirty_cas_set)

lemma unwatchCommand_clears:
  assumes "watch_inv s"
  shows "\<exists>s'. unwatchCommand c s = Inr s' \<and> \<not> dirty_cas (client_of s' c)"
proof -
  from unwatchAllKeys_ok [OF assms, of c] obtain s1 where s1: "unwatchAllKeys c s = Inr s1"
    by blast
  let ?s' = "addReply c shared_ok
      (upd_client c (\<lambda>cl. cl\<lparr>flags := flags cl AND NOT CLIENT_DIRTY_CAS\<rparr>) s1)"
  have u: "unwatchCommand c s = Inr ?s'"
    by (simp add: unwatchCommand_def s1)
  have f: "flags (client_of ?s' c) = flags (client_of s1 c) AND NOT CLIENT_DIRTY_CAS"
    by (simp add: upd_client_def)
  have "\<not> dirty_cas (client_of ?s' c)"
    unfolding dirty_cas_def f and_not_cas by simp
  with u show ?thesis by blast
qed

lemma discardTransaction_clears:
  assumes "watch_inv s"
  shows "\<exists>s'. discardTransaction c s = Inr s' \<and> \<not> dirty_cas (client_of s' c)"
proof -
  from discardTransaction_ok [OF assms, of c] obtain s' where
    s': "discardTransaction c s = Inr s'" "unwatch_frame c (reset_tx c s) s'"
    by blast
  have f: "flags (client_of s' c) =
      flags (client_of s c) AND NOT (CLIENT_MULTI OR CLIENT_DIRTY_CAS OR CLIENT_DIRTY_EXEC)"
    by (simp add: unwatch_frameD(1) [OF s'(2)] reset_tx_client)
  have "\<not> dirty_cas (client_of s' c)"
    unfolding dirty_cas_def f cleared_bits by simp
  with s'(1) show ?thesis by blast
qed

lemma unwatchAllKeys_keeps_flags:
  assumes "watch_inv s"
  shows "\<exists>s'. unwatchAllKeys c s = Inr s' \<and> flags (client_of s' c') = flags (client_of s c')"
proof -
  from unwatchAllKeys_ok [OF assms, of c] obtain s' where
    s': "unwatchAllKeys c s = Inr s'" "unwatch_frame c s s'"
    by blast
  have "flags (client_of s' c') = flags (client_of s c')"
    by (simp add: unwatch_frameD(1) [OF s'(2)])
  with s'(1) show ?thesis by blast
qed

lemma client_sends_fields [simp]:
  "flags (client_of (client_sends c rc args s) c') = flags (client_of s c')"
  "db (client_of (client_sends c rc args s) c') = db (client_of s c')"
  "reply (client_of (client_sends c rc args s) c') = reply (client_of s c')"
  "watched_keys (client_of (client_sends c rc args s) c') = watched_keys (client_of s c')"
  "argv (client_of (client_sends c rc args s) c) = args"
  by (simp_all add: client_sends_def upd_client_def)

lemma watch_inv_fold_watch:
  "watch_inv s \<Longrightarrow> watch_inv (fold (watchForKey c) keys s)"
  by (induction keys arbitrary: s) (simp_all add: watch_inv_watchForKey)

lemma fold_watch_reply [simp]:
  "reply (client_of (fold (watchForKey c) keys s) c') = reply (client_of s c')"
  by (induction keys arbitrary: s) simp_all

lemma watchCommand_idle:
  "\<not> in_multi (client_of s c) \<Longrightarrow>
   watchCommand c s = addReply c shared_ok (fold (watchForKey c) (tl (argv (client_of s c))) s)"
  by (simp add: watchCommand_def in_multi_def)

lemma watch_inv_queue_step: "watch_inv s \<Longrightarrow> watch_inv (queue_step c ev s)"
  by (cases ev)
     (simp_all add: watch_inv_queueMultiCommand watch_inv_client_sends watch_inv_flagTransaction)

lemma watch_inv_fold_queue: "watch_inv s \<Longrightarrow> watch_inv (fold (queue_step c) evs s)"
  by (induction evs arbitrary: s) (simp_all add: watch_inv_queue_step)

lemma queue_step_reply [simp]:
  "reply (client_of (queue_step c ev s) c') = reply (client_of s c')"
  by (cases ev) (simp_all add: flagTransaction_client)

lemma fold_queue_reply [simp]:
  "reply (client_of (fold (queue_step c) evs s) c') = reply (client_of s c')"
  by (induction evs arbitrary: s) simp_all

lemma queue_step_flags:
  "in_multi (client_of s c) \<Longrightarrow>
   flags (client_of (queue_step c ev s) c) =
     (if ev = Rejected then flags (client_of s c) OR CLIENT_DIRTY_EXEC else flags (client_of s c))"
  by (cases ev) (simp_all add: flagTransaction_client)

lemma in_multi_or_exec:
  "in_multi (cl\<lparr>flags := flags cl OR CLIENT_DIRTY_EXEC\<rparr>) = in_multi cl"
  unfolding in_multi_def by (simp add: set_bit_keeps_others)

lemma fold_queue_flags:
  "in_multi (client_of s c) \<Longrightarrow>
   flags (client_of (fold (queue_step c) evs s) c) =
     (if Rejected \<in> set evs then flags (client_of s c) OR CLIENT_DIRTY_EXEC
      else flags (client_of s c))"
proof (induction evs arbitrary: s)
  case Nil
  show ?case by simp
next
  case (Cons ev evs)
  let ?s1 = "queue_step c ev s"
  have f1: "flags (client_of ?s1 c) =
      (if ev = Rejected then flags (client_of s c) OR CLIENT_DIRTY_EXEC else flags (client_of s c))"
    by (rule queue_step_flags [OF Cons.prems])
  have im1: "in_multi (client_of ?s1 c)"
    using Cons.prems unfolding in_multi_def f1 by (simp add: set_bit_keeps_others)
  have "flags (client_of (fold (queue_step c) (ev # evs) s) c) =
      (if Rejected \<in> set evs then flags (client_of ?s1 c) OR CLIENT_DIRTY_EXEC
       else flags (client_of ?s1 c))"
    using Cons.IH [OF im1] by simp
  then show ?case
    unfolding f1 by (auto simp: or.assoc)
qed

lemma tainted_transaction:
  assumes inv: "watch_inv s"
    and nm: "\<not> in_multi (client_of s c)"
    and key: "key \<in> set (tl args)" and pk: "ptr key' = ptr key"
  shows "watch_inv (touched_before_multi c rc args key' evs s)"
    and "flags (client_of (touched_before_multi c rc args key' evs s) c) =
      (if Rejected \<in> set evs
       then ((flags (client_of s c) OR CLIENT_DIRTY_CAS) OR CLIENT_MULTI) OR CLIENT_DIRTY_EXEC
       else (flags (client_of s c) OR CLIENT_DIRTY_CAS) OR CLIENT_MULTI)"
    and "reply (client_of (touched_before_multi c rc args key' evs s) c) =
      reply (client_of s c) @ [shared_ok, shared_ok]"
proof -
  let ?d = "db (client_of s c)"
  let ?s0 = "client_sends c rc args s"
  let ?sf = "fold (watchForKey c) (tl args) ?s0"
  let ?s1 = "watchCommand c ?s0"
  let ?s2 = "touchWatchedKey ?d key' ?s1"
  let ?s3 = "multiCommand c ?s2"
  have nm0: "\<not> in_multi (client_of ?s0 c)"
    using nm by (simp add: in_multi_def)
  have w1: "?s1 = addReply c shared_ok ?sf"
    using watchCommand_idle [OF nm0] by simp
  have inv1: "watch_inv ?s1"
    unfolding w1 by (simp add: watch_inv_fold_watch watch_inv_client_sends inv)
  have "already_watched (db (client_of ?s0 c)) key (watched_keys (client_of ?sf c))"
    using key by (rule fold_watch_all)
  then have "watches ?s1 c ?d (ptr key)"
    unfolding w1 by (simp add: watches_def already_watched_iff)
  with watch_inv_BI1 [OF inv1] have mem: "c \<in> set (watchers ?s1 ?d (ptr key'))"
    by (simp add: BI1_def pk)
  have f1: "flags (client_of ?s1 c) = flags (client_of s c)"
    by (simp add: watchCommand_flags)
  have r1: "reply (client_of ?s1 c) = reply (client_of s c) @ [shared_ok]"
    unfolding w1 by simp
  have f2: "flags (client_of ?s2 c) = flags (client_of s c) OR CLIENT_DIRTY_CAS"
    by (simp add: touchWatchedKey_client mem f1)
  have r2: "reply (client_of ?s2 c) = reply (client_of s c) @ [shared_ok]"
    by (simp add: touchWatchedKey_client r1)
  have nm2: "\<not> in_multi (client_of ?s2 c)"
    using nm unfolding in_multi_def f2 set_bit_keeps_others .
  have f3: "flags (client_of ?s3 c) = (flags (client_of s c) OR CLIENT_DIRTY_CAS) OR CLIENT_MULTI"
    by (simp add: multiCommand_flags nm2 f2)
  have r3: "reply (client_of ?s3 c) = reply (client_of s c) @ [shared_ok, shared_ok]"
    using multiCommand_reply [OF nm2] r2 by simp
  have im3: "in_multi (client_of ?s3 c)"
    unfolding in_multi_def f3 by (simp add: or_and_self flag_nonzero)
  show "watch_inv (touched_before_multi c rc args key' evs s)"
    unfolding touched_before_multi_def
    by (intro watch_inv_fold_queue watch_inv_multiCommand watch_inv_touchWatchedKey inv1)
  show "flags (client_of (touched_before_multi c rc args key' evs s) c) =
      (if Rejected \<in> set evs
       then ((flags (client_of s c) OR CLIENT_DIRTY_CAS) OR CLIENT_MULTI) OR CLIENT_DIRTY_EXEC
       else (flags (client_of s c) OR CLIENT_DIRTY_CAS) OR CLIENT_MULTI)"
    unfolding touched_before_multi_def fold_queue_flags [OF im3] f3 ..
  show "reply (client_of (touched_before_multi c rc args key' evs s) c) =
      reply (client_of s c) @ [shared_ok, shared_ok]"
    unfolding touched_before_multi_def by (simp add: r3)
qed

lemma tainted_bits:
  assumes inv: "watch_inv s"
    and nm: "\<not> in_multi (client_of s c)"
    and key: "key \<in> set (tl args)" and pk: "ptr key' = ptr key"
  shows "in_multi (client_of (touched_before_multi c rc args key' evs s) c)"
    and "dirty_cas (client_of (touched_before_multi c rc args key' evs s) c)"
    and "dirty_exec (client_of (touched_before_multi c rc args key' evs s) c) =
           (dirty_exec (client_of s c) \<or> Rejected \<in> set evs)"
proof -
  note f = tainted_transaction(2) [OF assms, of rc evs]
  show "in_multi (client_of (touched_before_multi c rc args key' evs s) c)"
    unfolding in_multi_def f
    by (simp add: set_bit_keeps_others or_and_self flag_nonzero)
  show "dirty_cas (client_of (touched_before_multi c rc args key' evs s) c)"
    unfolding dirty_cas_def f
    by (simp add: set_bit_keeps_others or_and_self flag_nonzero)
  show "dirty_exec (client_of (touched_before_multi c rc args key' evs s) c) =
           (dirty_exec (client_of s c) \<or> Rejected \<in> set evs)"
    unfolding dirty_exec_def f
    by (simp add: set_bit_keeps_others or_and_self flag_nonzero)
qed

lemma discardTransaction_effect:
  assumes "watch_inv s"
  shows "\<exists>s'. discardTransaction c s = Inr s' \<and> tx_terminated c s' \<and>
           (\<forall>c'. c' \<noteq> c \<longrightarrow> client_of s' c' = client_of s c') \<and>
           reply (client_of s' c) = reply (client_of s c)"
proof -
  from discardTransaction_ok [OF assms, of c] obtain s' where
    s': "discardTransaction c s = Inr s'" "watch_inv s'" "unwatch_frame c (reset_tx c s) s'"
    by blast
  note fr = unwatch_frameD [OF s'(3)]
  have cl: "client_of s' c = (client_of s c)\<lparr>mstate := \<lparr>commands = [], cmd_flags = 0\<rparr>,
      flags := flags (client_of s c) AND NOT (CLIENT_MULTI OR CLIENT_DIRTY_CAS OR CLIENT_DIRTY_EXEC),
      watched_keys := []\<rparr>"
    by (simp add: fr(1) reset_tx_client)
  have others: "\<forall>c'. c' \<noteq> c \<longrightarrow> client_of s' c' = client_of s c'"
    by (simp add: fr(1) reset_tx_client)
  have nw: "c \<notin> set (watchers s' d k)" for d k
    using s'(2) by (rule not_watching_after) (simp add: cl)
  have f: "flags (client_of s' c) =
      flags (client_of s c) AND NOT (CLIENT_MULTI OR CLIENT_DIRTY_CAS OR CLIENT_DIRTY_EXEC)"
    by (simp add: cl)
  have bits: "\<not> in_multi (client_of s' c)" "\<not> dirty_cas (client_of s' c)"
      "\<not> dirty_exec (client_of s' c)"
    unfolding in_multi_def dirty_cas_def dirty_exec_def f cleared_bits by simp_all
  have tt: "tx_terminated c s'"
    by (simp add: tx_terminated_def bits nw) (simp add: cl)
  have r: "reply (client_of s' c) = reply (client_of s c)"
    by (simp add: cl)
  from s'(1) tt others r show ?thesis by blast
qed

lemma tx_terminated_addReply [simp]:
  "tx_terminated c (addReply c' r s) = tx_terminated c s"
  by (simp add: tx_terminated_def watchers_def in_multi_def dirty_cas_def dirty_exec_def)

lemma discardCommand_in_multi:
  assumes "watch_inv s" and "in_multi (client_of s c)"
  shows "\<exists>s'. discardCommand c s = Inr s' \<and> tx_terminated c s' \<and>
           reply (client_of s' c) = reply (client_of s c) @ [shared_ok] \<and>
           (\<forall>c'. c' \<noteq> c \<longrightarrow> client_of s' c' = client_of s c')"
proof -
  from discardTransaction_effect [OF assms(1), of c] obtain s1 where
    s1: "discardTransaction c s = Inr s1" "tx_terminated c s1"
      "\<forall>c'. c' \<noteq> c \<longrightarrow> client_of s1 c' = client_of s c'"
      "reply (client_of s1 c) = reply (client_of s c)"
    by blast
  have "discardCommand c s = Inr (addReply c shared_ok s1)"
    using assms(2) by (simp add: discardCommand_def in_multi_def s1(1))
  with s1 show ?thesis by simp
qed

lemma clientDisconnect_effect:
  assumes "watch_inv s"
  shows "\<exists>s'. clientDisconnect c s = Inr s' \<and> tx_terminated c s' \<and>
           (\<forall>c'. c' \<noteq> c \<longrightarrow> client_of s' c' = client_of s c')"
proof -
  from discardTransaction_effect [OF assms, of c] obtain s1 where
    s1: "discardTransaction c s = Inr s1" "tx_terminated c s1"
      "\<forall>c'. c' \<noteq> c \<longrightarrow> client_of s1 c' = client_of s c'"
    by blast
  have "clientDisconnect c s = Inr s1"
    by (simp add: clientDisconnect_def s1(1) freeClientMultiState_def)
  with s1 show ?thesis by blast
qed

lemma unwatchCommand_effect:
  assumes "watch_inv s"
  shows "\<exists>s'. unwatchCommand c s = Inr s' \<and> \<not> dirty_cas (client_of s' c) \<and>
           (\<forall>c'. c' \<noteq> c \<longrightarrow> client_of s' c' = client_of s c')"
proof -
  from unwatchAllKeys_ok [OF assms, of c] obtain s1 where
    s1: "unwatchAllKeys c s = Inr s1" "unwatch_frame c s s1"
    by blast
  let ?s' = "addReply c shared_ok
      (upd_client c (\<lambda>cl. cl\<lparr>flags := flags cl AND NOT CLIENT_DIRTY_CAS\<rparr>) s1)"
  have u: "unwatchCommand c s = Inr ?s'"
    by (simp add: unwatchCommand_def s1)
  have f: "flags (client_of ?s' c) = flags (client_of s1 c) AND NOT CLIENT_DIRTY_CAS"
    by (simp add: upd_client_def)
  have nd: "\<not> dirty_cas (client_of ?s' c)"
    unfolding dirty_cas_def f and_not_cas by simp
  have others: "\<forall>c'. c' \<noteq> c \<longrightarrow> client_of ?s' c' = client_of s c'"
    by (simp add: upd_client_def unwatch_frameD(1) [OF s1(2)])
  from u nd others show ?thesis by blast
qed

lemma exec_in_multi_clears:
  assumes inv: "watch_inv s" and fr: "call_frame call c" and im: "in_multi (client_of s c)"
  shows "\<exists>s'. execCommand call c s = Some (Inr s') \<and>
           \<not> in_multi (client_of s' c) \<and> \<not> dirty_cas (client_of s' c) \<and>
           \<not> dirty_exec (client_of s' c)"
proof (cases "dirty_exec (client_of s c) \<or> dirty_cas (client_of s c)")
  case True
  let ?r = "if dirty_exec (client_of s c) then shared_execaborterr else shared_nullmultibulk"
  from exec_abort_exit [OF inv, of c ?r] obtain s' where
    s': "map_sum id (handle_monitor c) (discardTransaction c (addReply c ?r s)) = Inr s'"
      "tx_terminated c s'"
    by blast
  have "execCommand call c s = Some (Inr s')"
    by (simp add: exec_dirty_eq [OF im True] s'(1))
  with s'(2) show ?thesis by (auto simp: tx_terminated_def)
next
  case False
  then have de: "\<not> dirty_exec (client_of s c)" and dc: "\<not> dirty_cas (client_of s c)"
    by simp_all
  show ?thesis
  proof (cases "readonly_gate s c")
    case True
    let ?r = "ReplyError (''Transaction contains write commands but instance '' @
                          ''is now a read-only slave. EXEC aborted.'')"
    from exec_abort_exit [OF inv, of c ?r] obtain s' where
      s': "map_sum id (handle_monitor c) (discardTransaction c (addReply c ?r s)) = Inr s'"
        "tx_terminated c s'"
      by blast
    have "execCommand call c s = Some (Inr s')"
      using s'(1) by (simp add: exec_readonly_eq [OF im de dc True] addReplyError_def)
    with s'(2) show ?thesis by (auto simp: tx_terminated_def)
  next
    case False
    from exec_normal_eq [OF inv fr im de dc False] obtain mp s3 where
      ex: "execCommand call c s = Some (Inr (exec_after_drain c s mp s3))"
      by blast
    let ?s' = "exec_after_drain c s mp s3"
    have f: "flags (client_of ?s' c) =
        flags (client_of s3 c) AND NOT (CLIENT_MULTI OR CLIENT_DIRTY_CAS OR CLIENT_DIRTY_EXEC)"
      by (simp add: exec_after_drain_client)
    have "\<not> in_multi (client_of ?s' c)" "\<not> dirty_cas (client_of ?s' c)"
        "\<not> dirty_exec (client_of ?s' c)"
      unfolding in_multi_def dirty_cas_def dirty_exec_def f cleared_bits by simp_all
    with ex show ?thesis by blast
  qed
qed

section \<open>The claims\<close>

text \<open>
  C4. \<^verbatim>\<open>touchWatchedKey\<close> sets \<^verbatim>\<open>CLIENT_DIRTY_CAS\<close> for every client watching the key in
  the database and changes nothing else: a client that watches it gets the bit and keeps
  every other field, a client that does not watch it is unchanged, and the watch
  dictionaries and the lists of watched keys are as before. The clients marked are those
  of the key's list in the index; with BI-1 they are the clients that have the key in
  their own list.
\<close>

theorem touchWatchedKey_marks_watchers:
  "touchWatchedKey d key s =
     s\<lparr>client_of := (\<lambda>c. if c \<in> set (watchers s d (ptr key))
                          then (client_of s c)\<lparr>flags := flags (client_of s c) OR CLIENT_DIRTY_CAS\<rparr>
                          else client_of s c)\<rparr> \<and>
   (BI1 s \<longrightarrow>
      (if watches s c d (ptr key)
       then dirty_cas (client_of (touchWatchedKey d key s) c) \<and>
            client_of (touchWatchedKey d key s) c =
              (client_of s c)\<lparr>flags := flags (client_of s c) OR CLIENT_DIRTY_CAS\<rparr>
       else client_of (touchWatchedKey d key s) c = client_of s c)) \<and>
   db_of (touchWatchedKey d key s) = db_of s \<and>
   watched_keys (client_of (touchWatchedKey d key s) c) = watched_keys (client_of s c)"
  by (simp add: touchWatchedKey_eq BI1_def dirty_cas_set)

theorem touchWatchedKey_marks_watchers_witness:
  "BI1 (watchForKey 1 key_a world0) \<and>
   watches (watchForKey 1 key_a world0) 1 0 ''a'' \<and>
   dirty_cas (client_of (touchWatchedKey 0 key_a' (watchForKey 1 key_a world0)) 1) \<and>
   \<not> watches (watchForKey 1 key_a world0) 0 0 ''a'' \<and>
   \<not> dirty_cas (client_of (touchWatchedKey 0 key_a' (watchForKey 1 key_a world0)) 0)"
proof -
  have bi: "BI1 (watchForKey 1 key_a world0)"
    by (rule watch_inv_BI1 [OF watch_inv_watchForKey [OF watch_inv_world0]])
  have w1: "watches (watchForKey 1 key_a world0) 1 0 ''a''"
    by (simp add: watches_def watched_keys_watchForKey world0_def idle_client_def key_a_def
        entries_for_def)
  have w0: "\<not> watches (watchForKey 1 key_a world0) 0 0 ''a''"
    by (simp add: watches_def watched_keys_watchForKey world0_def idle_client_def key_a_def
        entries_for_def)
  have old: "client_of (watchForKey 1 key_a world0) 0 = idle_client"
    by (simp add: watchForKey_def Let_def upd_client_def upd_db_def world0_def)
  have pa: "ptr key_a' = ''a''"
    by (simp add: key_a'_def)
  note t1 = touchWatchedKey_marks_watchers [of 0 key_a' "watchForKey 1 key_a world0" 1,
      THEN conjunct2, THEN conjunct1, THEN mp, OF bi]
  note t0 = touchWatchedKey_marks_watchers [of 0 key_a' "watchForKey 1 key_a world0" 0,
      THEN conjunct2, THEN conjunct1, THEN mp, OF bi]
  have d1: "dirty_cas (client_of (touchWatchedKey 0 key_a' (watchForKey 1 key_a world0)) 1)"
    using t1 unfolding pa if_P [OF w1] by (rule conjunct1)
  have "client_of (touchWatchedKey 0 key_a' (watchForKey 1 key_a world0)) 0 = idle_client"
    using t0 unfolding pa if_not_P [OF w0] old .
  then have d0: "\<not> dirty_cas (client_of (touchWatchedKey 0 key_a' (watchForKey 1 key_a world0)) 0)"
    by (simp add: dirty_cas_def idle_client_def)
  from bi w1 d1 w0 d0 show ?thesis by simp
qed

text \<open>
  C2. Bidirectional consistency of the watch index (BI-1): at every stable point a client
  is in the list of clients of a key of a database exactly when that key and database
  are in the client's list of watched keys, and the relation holds again after
  \<^verbatim>\<open>watchForKey\<close>, \<^verbatim>\<open>unwatchAllKeys\<close> (which returns without failing), \<^verbatim>\<open>touchWatchedKey\<close>
  and \<^verbatim>\<open>touchWatchedKeysOnFlush\<close>.
\<close>

theorem watch_index_bidirectional:
  assumes "stable_point s"
  shows "BI1 s \<and>
         BI1 (watchForKey c key s) \<and>
         (\<exists>s'. unwatchAllKeys c' s = Inr s' \<and> BI1 s') \<and>
         BI1 (touchWatchedKey d key' s) \<and>
         BI1 (touchWatchedKeysOnFlush dbid s)"
proof -
  from assms have inv: "watch_inv s"
    by (rule stable_point_watch_inv)
  have a: "BI1 s"
    using inv by (rule watch_inv_BI1)
  have b: "BI1 (watchForKey c key s)"
    using inv by (intro watch_inv_BI1 watch_inv_watchForKey)
  have c: "\<exists>s'. unwatchAllKeys c' s = Inr s' \<and> BI1 s'"
    using unwatchAllKeys_ok [OF inv, of c'] watch_inv_BI1 by blast
  have d: "BI1 (touchWatchedKey d key' s)"
    using inv same_index_touch by (blast intro: watch_inv_BI1 watch_inv_same_index)
  have e: "BI1 (touchWatchedKeysOnFlush dbid s)"
    using inv same_index_flush by (blast intro: watch_inv_BI1 watch_inv_same_index)
  from a b c d e show ?thesis by blast
qed

theorem watch_index_bidirectional_witness:
  "stable_point (watchForKey 1 key_a world0) \<and>
   BI1 (watchForKey 1 key_a world0) \<and>
   watchers (watchForKey 1 key_a world0) 0 ''a'' = [1] \<and>
   BI1 (watchForKey 0 key_a' (watchForKey 1 key_a world0)) \<and>
   (\<exists>s'. unwatchAllKeys 1 (watchForKey 1 key_a world0) = Inr s' \<and> BI1 s') \<and>
   BI1 (touchWatchedKey 0 key_a' (watchForKey 1 key_a world0)) \<and>
   BI1 (touchWatchedKeysOnFlush (- 1) (watchForKey 1 key_a world0))"
proof -
  have "no_watches world0"
    by (simp add: no_watches_def world0_def idle_client_def)
  then have sp: "stable_point (watchForKey 1 key_a world0)"
    by (intro sp_watch sp_init)
  have w: "watchers (watchForKey 1 key_a world0) 0 ''a'' = [1]"
    by (simp add: watchers_def watchForKey_def Let_def upd_client_def upd_db_def dictFetchValue_def
        dictAdd_def dictSetList_def world0_def idle_client_def key_a_def)
  from watch_index_bidirectional [OF sp, of 0 key_a' 1 0 key_a' "- 1"] sp w
  show ?thesis by simp
qed

text \<open>
  C5. \<^verbatim>\<open>touchWatchedKeysOnFlush\<close> sets \<^verbatim>\<open>CLIENT_DIRTY_CAS\<close> for exactly the clients of
  \<^verbatim>\<open>server.clients\<close> that have a watched key whose database is the flushed one (any
  database when the argument is -1) and which is in the keyspace of its database at the
  time of the call; nothing else changes. A client all of whose watched keys are absent
  from the keyspace is unchanged.
\<close>

theorem touchWatchedKeysOnFlush_marks_present_keys:
  "touchWatchedKeysOnFlush dbid s =
     s\<lparr>client_of := (\<lambda>c. if c \<in> set (clients s) \<and>
                             (\<exists>wk\<in>set (watched_keys (client_of s c)). flush_hits dbid s wk)
                          then (client_of s c)\<lparr>flags := flags (client_of s c) OR CLIENT_DIRTY_CAS\<rparr>
                          else client_of s c)\<rparr> \<and>
   ((\<forall>wk\<in>set (watched_keys (client_of s c)).
        dict (db_of s (wk_db wk)) (ptr (wk_key wk)) = None) \<longrightarrow>
    client_of (touchWatchedKeysOnFlush dbid s) c = client_of s c)"
  by (simp add: touchWatchedKeysOnFlush_eq flush_hits_def)

theorem touchWatchedKeysOnFlush_marks_present_keys_witness:
  "dirty_cas (client_of (touchWatchedKeysOnFlush 0 (watchForKey 1 key_a world_a)) 1) \<and>
   dirty_cas (client_of (touchWatchedKeysOnFlush (- 1) (watchForKey 1 key_a world_a)) 1) \<and>
   \<not> dirty_cas (client_of (touchWatchedKeysOnFlush 7 (watchForKey 1 key_a world_a)) 1) \<and>
   \<not> dirty_cas (client_of (touchWatchedKeysOnFlush 0 (watchForKey 1 key_a world_a)) 0) \<and>
   watched_keys (client_of (watchForKey 1 key_a world0) 1) = [\<lparr>wk_key = key_a, wk_db = 0\<rparr>] \<and>
   dict (db_of (watchForKey 1 key_a world0) 0) ''a'' = None \<and>
   \<not> dirty_cas (client_of (touchWatchedKeysOnFlush 0 (watchForKey 1 key_a world0)) 1)"
proof -
  have only: "watched_keys (client_of (watchForKey 1 key_a world0) 1) = [\<lparr>wk_key = key_a, wk_db = 0\<rparr>]"
    by (simp add: watched_keys_watchForKey world0_def idle_client_def)
  have none: "dict (db_of (watchForKey 1 key_a world0) 0) ''a'' = None"
    by (simp add: watchForKey_def Let_def upd_client_def upd_db_def world0_def idle_client_def)
  have absent: "\<forall>wk\<in>set (watched_keys (client_of (watchForKey 1 key_a world0) 1)).
        dict (db_of (watchForKey 1 key_a world0) (wk_db wk)) (ptr (wk_key wk)) = None"
    by (simp add: watchForKey_def Let_def upd_client_def upd_db_def world0_def idle_client_def
        key_a_def)
  have same: "client_of (touchWatchedKeysOnFlush 0 (watchForKey 1 key_a world0)) 1 =
      client_of (watchForKey 1 key_a world0) 1"
    using touchWatchedKeysOnFlush_marks_present_keys [of 0 "watchForKey 1 key_a world0" 1] absent
    by blast
  have clean: "\<not> dirty_cas (client_of (watchForKey 1 key_a world0) 1)"
    by (simp add: watchForKey_def Let_def upd_client_def upd_db_def world0_def idle_client_def
        dirty_cas_def)
  define S where "S = watchForKey 1 key_a world_a"
  have wa: "watched_keys (client_of S c) = (if c = 1 then [\<lparr>wk_key = key_a, wk_db = 0\<rparr>] else [])" for c
    by (simp add: S_def watched_keys_watchForKey world_a_def world0_def idle_client_def)
  have cl: "clients S = [0, 1]"
    by (simp add: S_def watchForKey_def Let_def upd_client_def upd_db_def world_a_def world0_def)
  have hit: "flush_hits dbid S \<lparr>wk_key = key_a, wk_db = 0\<rparr> = (dbid = - 1 \<or> dbid = 0)" for dbid
    by (auto simp: S_def flush_hits_def watchForKey_def Let_def upd_client_def upd_db_def
        world_a_def world0_def idle_client_def key_a_def)
  have fl: "flags (client_of S c) = 0" for c
    by (simp add: S_def watchForKey_def Let_def upd_client_def upd_db_def world_a_def world0_def
        idle_client_def)
  have "dirty_cas (client_of (touchWatchedKeysOnFlush dbid S) c) =
      (c = 1 \<and> (dbid = - 1 \<or> dbid = 0))" for dbid c
    by (simp add: touchWatchedKeysOnFlush_marks_present_keys [of dbid S c, THEN conjunct1]
        wa cl hit dirty_cas_def fl flag_nonzero)
  then have marks: "dirty_cas (client_of (touchWatchedKeysOnFlush dbid (watchForKey 1 key_a world_a)) c) =
      (c = 1 \<and> (dbid = - 1 \<or> dbid = 0))" for dbid c
    by (simp only: S_def)
  show ?thesis
    using only none same clean marks [of 0 1] marks [of "- 1" 1] marks [of 7 1] marks [of 0 0]
    by simp
qed

text \<open>
  C1. For a client in MULTI that invokes EXEC with a dirty flag set: the reply is the
  abort error when \<^verbatim>\<open>CLIENT_DIRTY_EXEC\<close> is set, and otherwise (\<^verbatim>\<open>CLIENT_DIRTY_CAS\<close> is
  set) the null multi-bulk. In both cases the command returns the same world whatever
  the executor is, so no queued command is executed (nothing is propagated, the dirty
  counter, the backlog and the keyspaces are as before), and the transaction is
  terminated: the client's keys are unwatched, its queue and both dirty flags are
  cleared, and it is no longer in MULTI. The world is at a stable point, where the watch
  index is consistent.
\<close>

theorem exec_aborts_on_dirty_flags:
  assumes "watch_inv s"
    and "in_multi (client_of s c)"
    and "dirty_exec (client_of s c) \<or> dirty_cas (client_of s c)"
  shows "\<exists>s'. (\<forall>call. execCommand call c s = Some (Inr s')) \<and>
           reply (client_of s' c) = reply (client_of s c) @
             [if dirty_exec (client_of s c) then shared_execaborterr else shared_nullmultibulk] \<and>
           tx_terminated c s' \<and>
           propagate_log s' = propagate_log s \<and> dirty s' = dirty s \<and>
           repl_backlog s' = repl_backlog s \<and>
           (\<forall>d. dict (db_of s' d) = dict (db_of s d)) \<and>
           (\<forall>c'. c' \<noteq> c \<longrightarrow> client_of s' c' = client_of s c')"
proof -
  let ?r = "if dirty_exec (client_of s c) then shared_execaborterr else shared_nullmultibulk"
  from exec_abort_exit [OF assms(1), of c ?r] obtain s' where
    s': "map_sum id (handle_monitor c) (discardTransaction c (addReply c ?r s)) = Inr s'"
      "tx_terminated c s'"
      "reply (client_of s' c) = reply (client_of s c) @ [?r]"
      "\<forall>c'. c' \<noteq> c \<longrightarrow> client_of s' c' = client_of s c'"
      "propagate_log s' = propagate_log s" "dirty s' = dirty s"
      "repl_backlog s' = repl_backlog s" "\<forall>d. dict (db_of s' d) = dict (db_of s d)"
    by blast
  have "\<forall>call. execCommand call c s = Some (Inr s')"
    by (simp add: exec_dirty_eq [OF assms(2,3)] s'(1))
  with s'(2-) show ?thesis by blast
qed

theorem exec_aborts_on_dirty_flags_witness:
  "watch_inv world_dirty_both \<and> in_multi (client_of world_dirty_both 0) \<and>
   dirty_exec (client_of world_dirty_both 0) \<and> dirty_cas (client_of world_dirty_both 0) \<and>
   (\<exists>s'. execCommand call_nothing 0 world_dirty_both = Some (Inr s') \<and>
         reply (client_of s' 0) = [shared_ok, shared_execaborterr] \<and> tx_terminated 0 s') \<and>
   watch_inv world_dirty_cas \<and> in_multi (client_of world_dirty_cas 0) \<and>
   \<not> dirty_exec (client_of world_dirty_cas 0) \<and> dirty_cas (client_of world_dirty_cas 0) \<and>
   (\<exists>s'. execCommand call_nothing 0 world_dirty_cas = Some (Inr s') \<and>
         reply (client_of s' 0) = [shared_ok, shared_nullmultibulk] \<and> tx_terminated 0 s')"
proof -
  note b = world_dirty_bits and f = world_dirty_facts
  from exec_aborts_on_dirty_flags [of world_dirty_both 0] f(3) b(4,6)
  have both: "\<exists>s'. execCommand call_nothing 0 world_dirty_both = Some (Inr s') \<and>
         reply (client_of s' 0) = [shared_ok, shared_execaborterr] \<and> tx_terminated 0 s'"
    by (simp add: f(8)) blast
  from exec_aborts_on_dirty_flags [of world_dirty_cas 0] f(2) b(1,2,3)
  have cas: "\<exists>s'. execCommand call_nothing 0 world_dirty_cas = Some (Inr s') \<and>
         reply (client_of s' 0) = [shared_ok, shared_nullmultibulk] \<and> tx_terminated 0 s'"
    by (simp add: f(7)) blast
  from both cas b f(2,3) show ?thesis by simp
qed

text \<open>
  C7, as the claim states it, fails: with a dirty flag set the checks of step 1 come
  first. Here the server is a read-only follower, the client is in MULTI and not the
  replication channel, and its queue holds a write, but its watched key was touched: the
  reply to EXEC is the null multi-bulk, not the read-only error.
\<close>

theorem exec_readonly_follower_counterexample:
  "watch_inv world_follower_cas \<and> in_multi (client_of world_follower_cas 0) \<and>
   \<not> loading world_follower_cas \<and> masterhost world_follower_cas \<noteq> None \<and>
   repl_slave_ro world_follower_cas \<and>
   flags (client_of world_follower_cas 0) AND CLIENT_MASTER = 0 \<and>
   cmd_flags (mstate (client_of world_follower_cas 0)) AND CMD_WRITE \<noteq> 0 \<and>
   (\<exists>s'. execCommand call_nothing 0 world_follower_cas = Some (Inr s') \<and>
         reply (client_of s' 0) = [shared_ok, shared_nullmultibulk])"
proof -
  note f = world_follower_facts
  have bits: "in_multi (client_of world_follower_cas 0)"
      "dirty_cas (client_of world_follower_cas 0)"
      "\<not> dirty_exec (client_of world_follower_cas 0)"
    unfolding in_multi_def dirty_cas_def dirty_exec_def f
    by (simp_all add: CLIENT_MULTI_def CLIENT_DIRTY_CAS_def CLIENT_DIRTY_EXEC_def)
  from exec_abort_exit [OF f(2), of 0 shared_nullmultibulk] obtain s' where
    "map_sum id (handle_monitor 0)
       (discardTransaction 0 (addReply 0 shared_nullmultibulk world_follower_cas)) = Inr s'"
    "reply (client_of s' 0) = reply (client_of world_follower_cas 0) @ [shared_nullmultibulk]"
    by blast
  then have "execCommand call_nothing 0 world_follower_cas = Some (Inr s') \<and>
      reply (client_of s' 0) = [shared_ok, shared_nullmultibulk]"
    using exec_dirty_eq [of world_follower_cas 0 call_nothing] bits
    by (simp add: f(8))
  then show ?thesis
    using f(2,4) bits(1) by (auto simp: readonly_gate_def)
qed

text \<open>
  C7, amended: when neither dirty flag is set, EXEC by a client in MULTI that is not the
  replication channel, on a read-only follower (not loading, with a primary, follower
  writes disabled) and with the write bit in the accumulated flags, replies with the
  read-only error; the world it returns does not depend on the executor, nothing is
  propagated or changed in the keyspaces, and the transaction is terminated.
\<close>

theorem exec_refused_on_readonly_follower:
  assumes "watch_inv s"
    and "in_multi (client_of s c)"
    and "\<not> dirty_exec (client_of s c)" and "\<not> dirty_cas (client_of s c)"
    and "\<not> loading s" and "masterhost s \<noteq> None" and "repl_slave_ro s"
    and "flags (client_of s c) AND CLIENT_MASTER = 0"
    and "cmd_flags (mstate (client_of s c)) AND CMD_WRITE \<noteq> 0"
  shows "\<exists>s'. (\<forall>call. execCommand call c s = Some (Inr s')) \<and>
           reply (client_of s' c) = reply (client_of s c) @
             [ReplyError (''Transaction contains write commands but instance '' @
                          ''is now a read-only slave. EXEC aborted.'')] \<and>
           tx_terminated c s' \<and>
           propagate_log s' = propagate_log s \<and> dirty s' = dirty s \<and>
           repl_backlog s' = repl_backlog s \<and>
           (\<forall>d. dict (db_of s' d) = dict (db_of s d)) \<and>
           (\<forall>c'. c' \<noteq> c \<longrightarrow> client_of s' c' = client_of s c')"
proof -
  let ?r = "ReplyError (''Transaction contains write commands but instance '' @
                        ''is now a read-only slave. EXEC aborted.'')"
  from assms(5-9) have gate: "readonly_gate s c"
    by (simp add: readonly_gate_def)
  from exec_abort_exit [OF assms(1), of c ?r] obtain s' where
    s': "map_sum id (handle_monitor c) (discardTransaction c (addReply c ?r s)) = Inr s'"
      "tx_terminated c s'"
      "reply (client_of s' c) = reply (client_of s c) @ [?r]"
      "\<forall>c'. c' \<noteq> c \<longrightarrow> client_of s' c' = client_of s c'"
      "propagate_log s' = propagate_log s" "dirty s' = dirty s"
      "repl_backlog s' = repl_backlog s" "\<forall>d. dict (db_of s' d) = dict (db_of s d)"
    by blast
  have "\<forall>call. execCommand call c s = Some (Inr s')"
    using s'(1) by (simp add: exec_readonly_eq [OF assms(2-4) gate] addReplyError_def)
  with s'(2-) show ?thesis by blast
qed

theorem exec_refused_on_readonly_follower_witness:
  "watch_inv world_follower \<and> in_multi (client_of world_follower 0) \<and>
   \<not> dirty_exec (client_of world_follower 0) \<and> \<not> dirty_cas (client_of world_follower 0) \<and>
   \<not> loading world_follower \<and> masterhost world_follower \<noteq> None \<and>
   repl_slave_ro world_follower \<and>
   flags (client_of world_follower 0) AND CLIENT_MASTER = 0 \<and>
   cmd_flags (mstate (client_of world_follower 0)) AND CMD_WRITE \<noteq> 0 \<and>
   (\<exists>s'. execCommand call_nothing 0 world_follower = Some (Inr s') \<and>
         reply (client_of s' 0) =
           [shared_ok, ReplyError ''Transaction contains write commands but instance is now a read-only slave. EXEC aborted.''] \<and>
         tx_terminated 0 s' \<and> propagate_log s' = [])"
proof -
  note f = world_follower_facts
  have bits: "in_multi (client_of world_follower 0)"
      "\<not> dirty_cas (client_of world_follower 0)"
      "\<not> dirty_exec (client_of world_follower 0)"
    unfolding in_multi_def dirty_cas_def dirty_exec_def f
    by (simp_all add: CLIENT_MULTI_def CLIENT_DIRTY_CAS_def CLIENT_DIRTY_EXEC_def)
  have gate: "\<not> loading world_follower" "masterhost world_follower \<noteq> None"
      "repl_slave_ro world_follower" "flags (client_of world_follower 0) AND CLIENT_MASTER = 0"
      "cmd_flags (mstate (client_of world_follower 0)) AND CMD_WRITE \<noteq> 0"
    using f(3) by (simp_all add: readonly_gate_def)
  have pl: "propagate_log world_follower = []"
    by (simp add: world_follower_def world_queued_set_facts)
  from exec_refused_on_readonly_follower [OF f(1) bits(1,3,2) gate]
  have "\<exists>s'. execCommand call_nothing 0 world_follower = Some (Inr s') \<and>
         reply (client_of s' 0) =
           [shared_ok, ReplyError ''Transaction contains write commands but instance is now a read-only slave. EXEC aborted.''] \<and>
         tx_terminated 0 s' \<and> propagate_log s' = []"
    by (simp add: f(7) pl) blast
  with f(1) bits gate show ?thesis by simp
qed

text \<open>
  C6. Lazy MULTI propagation in the drain of \<^verbatim>\<open>execCommand\<close> (the loop from index 0 with
  \<open>must_propagate\<close> false), for an executor that leaves the client's queue alone. With
  a first entry \<open>i\<close> that is neither read-only nor admin, the loop returns with
  \<open>must_propagate\<close> true, having executed the entries before \<open>i\<close> with nothing sent by
  the engine, sent the synthetic MULTI once before entry \<open>i\<close>, and executed the entries
  after \<open>i\<close> with nothing more sent. With every entry read-only or admin it returns
  with \<open>must_propagate\<close> false and no MULTI sent. When the executor itself sends nothing
  to the sink, the propagated stream is the old one with that single MULTI frame, or the
  old one unchanged.
\<close>

theorem multi_propagated_once_at_first_trigger:
  assumes "call_frame call c"
  shows "exec_drain call c 0 False s =
           Some (case first_trigger s c of
                   None \<Rightarrow>
                     (False, run_entries call c [0..<length (commands (mstate (client_of s c)))] s)
                 | Some i \<Rightarrow>
                     (True, run_entries call c [Suc i..<length (commands (mstate (client_of s c)))]
                              (run_entry_after_multi call c i (run_entries call c [0..<i] s)))) \<and>
         ((first_trigger s c = None) =
            (\<forall>j<length (commands (mstate (client_of s c))). \<not> triggers_multi s c j)) \<and>
         (\<forall>i. (first_trigger s c = Some i) =
            (i < length (commands (mstate (client_of s c))) \<and> triggers_multi s c i \<and>
             (\<forall>j<i. \<not> triggers_multi s c j))) \<and>
         (call_quiet call c \<longrightarrow>
            (\<exists>mp s'. exec_drain call c 0 False s = Some (mp, s') \<and>
               mp = (first_trigger s c \<noteq> None) \<and>
               (case first_trigger s c of
                  None \<Rightarrow> propagate_log s' = propagate_log s
                | Some i \<Rightarrow> \<exists>rc dbid. propagate_log s' =
                    propagate_log s @
                      [Propagate rc dbid [''MULTI''] (PROPAGATE_AOF OR PROPAGATE_REPL)])))"
proof -
  have a: "exec_drain call c 0 False s = Some (drain_outcome call c s)"
    by (rule exec_drain_outcome [OF assms])
  have b: "call_quiet call c \<longrightarrow>
            (\<exists>mp s'. exec_drain call c 0 False s = Some (mp, s') \<and>
               mp = (first_trigger s c \<noteq> None) \<and>
               (case first_trigger s c of
                  None \<Rightarrow> propagate_log s' = propagate_log s
                | Some i \<Rightarrow> \<exists>rc dbid. propagate_log s' =
                    propagate_log s @
                      [Propagate rc dbid [''MULTI''] (PROPAGATE_AOF OR PROPAGATE_REPL)]))"
  proof
    assume q: "call_quiet call c"
    obtain mp s' where out: "drain_outcome call c s = (mp, s')"
      by (cases "drain_outcome call c s")
    then have mp: "mp = (first_trigger s c \<noteq> None)"
      by (auto simp: drain_outcome_def split: option.splits)
    have "case first_trigger s c of
            None \<Rightarrow> propagate_log s' = propagate_log s
          | Some i \<Rightarrow> \<exists>rc dbid. propagate_log s' =
              propagate_log s @ [Propagate rc dbid [''MULTI''] (PROPAGATE_AOF OR PROPAGATE_REPL)]"
      using drain_outcome_log [OF q, of s] unfolding out snd_conv .
    with a out mp show "\<exists>mp s'. exec_drain call c 0 False s = Some (mp, s') \<and>
               mp = (first_trigger s c \<noteq> None) \<and>
               (case first_trigger s c of
                  None \<Rightarrow> propagate_log s' = propagate_log s
                | Some i \<Rightarrow> \<exists>rc dbid. propagate_log s' =
                    propagate_log s @
                      [Propagate rc dbid [''MULTI''] (PROPAGATE_AOF OR PROPAGATE_REPL)])"
      by auto
  qed
  from a b first_trigger_None [of s c] first_trigger_Some [of s c] show ?thesis
    by (simp add: drain_outcome_def)
qed

theorem multi_propagated_once_at_first_trigger_witness:
  "call_frame call_nothing 0 \<and>
   first_trigger world_batch 0 = Some 1 \<and>
   (\<exists>s'. exec_drain call_nothing 0 0 False world_batch = Some (True, s') \<and>
         propagate_log s' = [Propagate cmd_multi 0 [''MULTI''] (PROPAGATE_AOF OR PROPAGATE_REPL)]) \<and>
   first_trigger world_reads 0 = None \<and>
   (\<exists>s'. exec_drain call_nothing 0 0 False world_reads = Some (False, s') \<and>
         propagate_log s' = [])"
proof -
  have fb: "first_trigger world_batch 0 = Some 1"
    by (simp add: first_trigger_def triggers_multi_def world_batch_eq upt_small cmd_get_def
        cmd_set_def cmd_flag_tests)
  have fr: "first_trigger world_reads 0 = None"
    by (simp add: first_trigger_def triggers_multi_def world_reads_eq upt_small cmd_get_def
        cmd_flag_tests)
  have nb: "length (commands (mstate (client_of world_batch 0))) = 3"
    and nr: "length (commands (mstate (client_of world_reads 0))) = 1"
    by (simp_all add: world_batch_eq world_reads_eq)
  note tb = multi_propagated_once_at_first_trigger [where call = call_nothing and c = 0
      and s = world_batch, OF frame_nothing(1), THEN conjunct1]
  note tr = multi_propagated_once_at_first_trigger [where call = call_nothing and c = 0
      and s = world_reads, OF frame_nothing(1), THEN conjunct1]
  have lb: "propagate_log
      (run_entries call_nothing 0 [Suc 1..<3]
         (run_entry_after_multi call_nothing 0 1 (run_entries call_nothing 0 [0..<1] world_batch))) =
      [Propagate cmd_multi 0 [''MULTI''] (PROPAGATE_AOF OR PROPAGATE_REPL)]"
    by (simp add: run_entries_log run_entry_log frame_nothing run_entry_after_multi_log)
       (simp add: world_batch_eq world0_def run_entry_def store_entry_def call_entry_def
          install_entry_def call_nothing_def upd_client_def)
  have lr: "propagate_log (run_entries call_nothing 0 [0..<1] world_reads) = []"
    by (simp add: run_entries_log run_entry_log frame_nothing) (simp add: world_reads_eq world0_def)
  from tb lb
  have b: "\<exists>s'. exec_drain call_nothing 0 0 False world_batch = Some (True, s') \<and>
         propagate_log s' = [Propagate cmd_multi 0 [''MULTI''] (PROPAGATE_AOF OR PROPAGATE_REPL)]"
    by (simp add: fb nb)
  from tr lr
  have r: "\<exists>s'. exec_drain call_nothing 0 0 False world_reads = Some (False, s') \<and>
         propagate_log s' = []"
    by (simp add: fr nr)
  from frame_nothing(1) fb b fr r show ?thesis by blast
qed

text \<open>
  C10. EXEC with an empty queue: for a client in MULTI with no queued command and both
  dirty flags clear, at a stable point and with the accumulated flags those of the
  queue (BI-6), EXEC returns the same world for every executor; the reply is a
  multi-bulk length of 0, the loop returns at once with \<open>must_propagate\<close> false, nothing
  is propagated, the dirty counter, the backlog and the keyspaces are unchanged, and the
  client is left idle, with empty queue, no watched key and clean flags.
\<close>

theorem exec_empty_queue:
  assumes "watch_inv s"
    and "in_multi (client_of s c)"
    and "\<not> dirty_exec (client_of s c)" and "\<not> dirty_cas (client_of s c)"
    and "commands (mstate (client_of s c)) = []"
    and "BI6 (client_of s c)"
  shows "\<exists>s'. (\<forall>call. execCommand call c s = Some (Inr s')) \<and>
           reply (client_of s' c) = reply (client_of s c) @ [ReplyMultiBulkLen 0] \<and>
           tx_terminated c s' \<and>
           propagate_log s' = propagate_log s \<and> dirty s' = dirty s \<and>
           repl_backlog s' = repl_backlog s \<and>
           (\<forall>d. dict (db_of s' d) = dict (db_of s d)) \<and>
           (\<forall>c'. c' \<noteq> c \<longrightarrow> client_of s' c' = client_of s c') \<and>
           (\<exists>s1. unwatchAllKeys c s = Inr s1 \<and>
              (\<forall>call. exec_drain call c 0 False (addReplyMultiBulkLen c 0 s1) =
                        Some (False, addReplyMultiBulkLen c 0 s1)))"
proof -
  from assms(5,6) have cf: "cmd_flags (mstate (client_of s c)) = 0"
    by (simp add: BI6_def)
  then have gate: "\<not> readonly_gate s c"
    by (simp add: readonly_gate_def)
  from unwatchAllKeys_ok [OF assms(1), of c] obtain s1 where
    s1: "unwatchAllKeys c s = Inr s1" "watch_inv s1" "unwatch_frame c s s1"
    by blast
  note f1 = unwatch_frameD [OF s1(3)]
  let ?s2 = "addReplyMultiBulkLen c 0 s1"
  have c2: "client_of ?s2 c = (client_of s c)\<lparr>watched_keys := [],
      reply := reply (client_of s c) @ [ReplyMultiBulkLen 0]\<rparr>"
    by (simp add: addReplyMultiBulkLen_def f1(1))
  have o2: "c' \<noteq> c \<Longrightarrow> client_of ?s2 c' = client_of s c'" for c'
    by (simp add: addReplyMultiBulkLen_def f1(1))
  have dr: "exec_drain call c 0 False ?s2 = Some (False, ?s2)" for call
    by (rule exec_drain_done) (simp add: c2 assms(5))
  have w2: "watched_keys (client_of ?s2 c) = []"
    by (simp add: c2)
  let ?s' = "exec_after_drain c s False ?s2"
  have ex: "execCommand call c s = Some (Inr ?s')" for call
    using exec_normal_with [OF assms(2-4) gate s1(1,3) _ w2, of call False] dr [of call]
    by (simp add: assms(5))
  have cl: "client_of ?s' c = (client_of s c)\<lparr>watched_keys := [],
      reply := reply (client_of s c) @ [ReplyMultiBulkLen 0],
      mstate := \<lparr>commands = [], cmd_flags = 0\<rparr>,
      flags := flags (client_of s c) AND NOT (CLIENT_MULTI OR CLIENT_DIRTY_CAS OR CLIENT_DIRTY_EXEC)\<rparr>"
    by (simp add: exec_after_drain_client c2)
  have f: "flags (client_of ?s' c) =
      flags (client_of s c) AND NOT (CLIENT_MULTI OR CLIENT_DIRTY_CAS OR CLIENT_DIRTY_EXEC)"
    by (simp add: cl)
  have bits: "\<not> in_multi (client_of ?s' c)" "\<not> dirty_cas (client_of ?s' c)"
      "\<not> dirty_exec (client_of ?s' c)"
    unfolding in_multi_def dirty_cas_def dirty_exec_def f cleared_bits by simp_all
  have "c \<notin> set (watchers s1 d k)" for d k
    using s1(2) by (rule not_watching_after) (simp add: f1(1))
  then have nw: "c \<notin> set (watchers ?s' d k)" for d k
    by (simp add: watchers_def exec_after_drain_fields addReplyMultiBulkLen_def)
  have tt: "tx_terminated c ?s'"
    by (simp add: tx_terminated_def bits nw) (simp add: cl)
  have r: "reply (client_of ?s' c) = reply (client_of s c) @ [ReplyMultiBulkLen 0]"
    by (simp add: cl)
  have others: "\<forall>c'. c' \<noteq> c \<longrightarrow> client_of ?s' c' = client_of s c'"
    by (simp add: exec_after_drain_client o2)
  have rest: "propagate_log ?s' = propagate_log s" "dirty ?s' = dirty s"
      "repl_backlog ?s' = repl_backlog s" "\<forall>d. dict (db_of ?s' d) = dict (db_of s d)"
    by (simp_all add: exec_after_drain_fields addReplyMultiBulkLen_def f1)
  from ex r tt rest others s1(1) dr show ?thesis
    by blast
qed

theorem exec_empty_queue_witness:
  "watch_inv world_multi \<and> in_multi (client_of world_multi 0) \<and>
   \<not> dirty_exec (client_of world_multi 0) \<and> \<not> dirty_cas (client_of world_multi 0) \<and>
   commands (mstate (client_of world_multi 0)) = [] \<and> BI6 (client_of world_multi 0) \<and>
   watchers world_multi 0 ''a'' = [0] \<and>
   (\<exists>s'. execCommand call_replicaof 0 world_multi = Some (Inr s') \<and>
         reply (client_of s' 0) = [shared_ok, ReplyMultiBulkLen 0] \<and>
         tx_terminated 0 s' \<and> propagate_log s' = [] \<and> dirty s' = 0)"
proof -
  note m = world_multi_more and f = world_multi_facts
  from exec_empty_queue [OF f(1) m(1-5)]
  have "\<exists>s'. execCommand call_replicaof 0 world_multi = Some (Inr s') \<and>
         reply (client_of s' 0) = [shared_ok, ReplyMultiBulkLen 0] \<and>
         tx_terminated 0 s' \<and> propagate_log s' = [] \<and> dirty s' = 0"
    by (simp add: f(3) m(6,7)) blast
  with f(1,4) m(1-5) show ?thesis by simp
qed


text \<open>
  C9, as the claim states it, fails where the server has no replication backlog: the
  frame is fed to the backlog only when \<^verbatim>\<open>server.repl_backlog\<close> is not NULL. Here a
  primary without a backlog runs the queue \<open>SET a 1\<close>, \<open>SLAVEOF 10.0.0.1 6379\<close>: the
  batch is propagated (the MULTI is sent, the dirty counter is incremented), the server
  was a primary at entry and is a follower after the drain, and no EXEC frame is
  appended: there is still no backlog.
\<close>

theorem exec_backlog_counterexample:
  "masterhost world_replicaof = None \<and> repl_backlog world_replicaof = None \<and>
   (\<exists>s'. execCommand call_replicaof 0 world_replicaof = Some (Inr s') \<and>
         propagate_log s' = [Propagate cmd_multi 0 [''MULTI''] (PROPAGATE_AOF OR PROPAGATE_REPL)] \<and>
         dirty s' = dirty world_replicaof + 1 \<and>
         masterhost s' = Some ''10.0.0.1'' \<and>
         repl_backlog s' = None)"
proof -
  note w = replicaof_world_facts [of None, unfolded world_replicaof_backlog_None]
  from exec_normal_eq [OF w(1) frame_replicaof(1) w(3,4,5,6)] obtain s1 mp s3 where
    r: "unwatchAllKeys 0 world_replicaof = Inr s1"
      "drain_outcome call_replicaof 0
         (addReplyMultiBulkLen 0 (length (commands (mstate (client_of world_replicaof 0)))) s1) = (mp, s3)"
      "execCommand call_replicaof 0 world_replicaof = Some (Inr (exec_after_drain 0 world_replicaof mp s3))"
    by blast
  from r(1) w(2) have s1: "s1 = world_replicaof" by simp
  from replicaof_drain [of None, unfolded world_replicaof_backlog_None] r(2)
  have s3: "mp" "masterhost s3 = Some ''10.0.0.1''" "dirty s3 = 0" "repl_backlog s3 = None"
      "propagate_log s3 = [Propagate cmd_multi 0 [''MULTI''] (PROPAGATE_AOF OR PROPAGATE_REPL)]"
    by (auto simp: s1 w(9))
  have "repl_backlog world_replicaof = None"
    by (simp add: world_replicaof_eq world0_def)
  with r(3) s3 w(7,8) show ?thesis
    by (simp add: exec_after_drain_fields)
qed

text \<open>
  C9, amended: on the path of EXEC that executes the queue, with an executor that
  leaves the client's queue and watched keys alone, the loop returns with
  \<open>must_propagate\<close> true exactly when some entry is neither read-only nor admin. If it
  is true, the dirty counter is the one after the drain plus one, and if moreover the
  server was a primary at entry and is a follower after the drain, the bytes
  \<^verbatim>\<open>*1\r\n$4\r\nEXEC\r\n\<close> are appended to the replication backlog when there is one
  (with no backlog there is still none). If it is false, the dirty counter and the
  backlog are those after the drain.
\<close>

theorem exec_finalizes_propagation:
  assumes "watch_inv s" and "call_frame call c"
    and "in_multi (client_of s c)"
    and "\<not> dirty_exec (client_of s c)" and "\<not> dirty_cas (client_of s c)"
    and "\<not> readonly_gate s c"
  shows "\<exists>s1 mp s3 s'.
           unwatchAllKeys c s = Inr s1 \<and>
           exec_drain call c 0 False
             (addReplyMultiBulkLen c (length (commands (mstate (client_of s c)))) s1) = Some (mp, s3) \<and>
           mp = (first_trigger s c \<noteq> None) \<and>
           execCommand call c s = Some (Inr s') \<and>
           masterhost s' = masterhost s3 \<and>
           dirty s' = (if mp then dirty s3 + 1 else dirty s3) \<and>
           repl_backlog s' =
             (if mp \<and> masterhost s = None \<and> masterhost s3 \<noteq> None
              then map_option (\<lambda>b. b @ execcmd) (repl_backlog s3)
              else repl_backlog s3)"
proof -
  from exec_normal_eq [OF assms] obtain s1 mp s3 where
    r: "unwatchAllKeys c s = Inr s1"
      "exec_drain call c 0 False
         (addReplyMultiBulkLen c (length (commands (mstate (client_of s c)))) s1) = Some (mp, s3)"
      "mp = (first_trigger s c \<noteq> None)"
      "execCommand call c s = Some (Inr (exec_after_drain c s mp s3))"
    by blast
  have "masterhost (exec_after_drain c s mp s3) = masterhost s3"
    and "dirty (exec_after_drain c s mp s3) = (if mp then dirty s3 + 1 else dirty s3)"
    and "repl_backlog (exec_after_drain c s mp s3) =
      (if mp \<and> masterhost s = None \<and> masterhost s3 \<noteq> None
       then map_option (\<lambda>b. b @ execcmd) (repl_backlog s3) else repl_backlog s3)"
    by (rule exec_after_drain_fields)+
  with r show ?thesis by blast
qed

theorem exec_finalizes_propagation_witness:
  "watch_inv world_replicaof_backlog \<and> call_frame call_replicaof 0 \<and>
   in_multi (client_of world_replicaof_backlog 0) \<and>
   \<not> dirty_exec (client_of world_replicaof_backlog 0) \<and>
   \<not> dirty_cas (client_of world_replicaof_backlog 0) \<and>
   \<not> readonly_gate world_replicaof_backlog 0 \<and>
   masterhost world_replicaof_backlog = None \<and> repl_backlog world_replicaof_backlog = Some [] \<and>
   (\<exists>s'. execCommand call_replicaof 0 world_replicaof_backlog = Some (Inr s') \<and>
         masterhost s' = Some ''10.0.0.1'' \<and> dirty s' = 1 \<and> repl_backlog s' = Some execcmd)"
proof -
  note w = replicaof_world_facts [of "Some []", folded world_replicaof_backlog_def]
  from exec_finalizes_propagation [OF w(1) frame_replicaof(1) w(3,4,5,6)] obtain s1 mp s3 s' where
    r: "unwatchAllKeys 0 world_replicaof_backlog = Inr s1"
      "exec_drain call_replicaof 0 0 False
         (addReplyMultiBulkLen 0 (length (commands (mstate (client_of world_replicaof_backlog 0)))) s1) =
           Some (mp, s3)"
      "execCommand call_replicaof 0 world_replicaof_backlog = Some (Inr s')"
      "masterhost s' = masterhost s3"
      "dirty s' = (if mp then dirty s3 + 1 else dirty s3)"
      "repl_backlog s' =
         (if mp \<and> masterhost world_replicaof_backlog = None \<and> masterhost s3 \<noteq> None
          then map_option (\<lambda>b. b @ execcmd) (repl_backlog s3) else repl_backlog s3)"
    by blast
  from r(1) w(2) have s1: "s1 = world_replicaof_backlog" by simp
  from replicaof_drain [of "Some []", folded world_replicaof_backlog_def] obtain t3 where
    t3: "drain_outcome call_replicaof 0 (addReplyMultiBulkLen 0 2 world_replicaof_backlog) = (True, t3)"
      "masterhost t3 = Some ''10.0.0.1''" "dirty t3 = 0" "repl_backlog t3 = Some []"
    by blast
  from r(2) t3(1) exec_drain_outcome [OF frame_replicaof(1), of 0 "addReplyMultiBulkLen 0 2 world_replicaof_backlog"]
  have eq: "mp" "s3 = t3"
    by (simp_all add: s1 w(9))
  have bl: "repl_backlog world_replicaof_backlog = Some []"
    by (simp add: world_replicaof_backlog_def)
  from r(3,4,5,6) eq t3 w(7) have "execCommand call_replicaof 0 world_replicaof_backlog = Some (Inr s') \<and>
         masterhost s' = Some ''10.0.0.1'' \<and> dirty s' = 1 \<and> repl_backlog s' = Some execcmd"
    by simp
  with w(1,3,4,5,6,7) frame_replicaof(1) bl show ?thesis by blast
qed

text \<open>
  C8. \<^verbatim>\<open>watchForKey\<close> is idempotent per client: when the client's list already holds
  the client's database with a key of the same bytes, the call leaves the whole world
  unchanged; so a second call with any object of the same bytes (the same object or
  another one) changes nothing after the first, a second \<^verbatim>\<open>WATCH\<close> of the same keys only
  adds its reply, and at every stable point a database and key stand at most once in a
  client's list (BI-2).
\<close>

theorem watchForKey_idempotent:
  "(watches s c (db (client_of s c)) (ptr key) \<longrightarrow> watchForKey c key s = s) \<and>
   (ptr key' = ptr key \<longrightarrow> watchForKey c key' (watchForKey c key s) = watchForKey c key s) \<and>
   (\<not> in_multi (client_of s c) \<longrightarrow>
      watchCommand c (watchCommand c s) = addReply c shared_ok (watchCommand c s)) \<and>
   (stable_point s \<longrightarrow> BI2 s \<and> BI2 (watchForKey c key s))"
proof -
  have a: "watches s c (db (client_of s c)) (ptr key) \<longrightarrow> watchForKey c key s = s"
    by (simp add: watches_def watchForKey_noop already_watched_iff)
  have b: "ptr key' = ptr key \<longrightarrow> watchForKey c key' (watchForKey c key s) = watchForKey c key s"
    by (simp add: watchForKey_twice)
  have c: "\<not> in_multi (client_of s c) \<longrightarrow>
      watchCommand c (watchCommand c s) = addReply c shared_ok (watchCommand c s)"
    by (simp add: watchCommand_twice)
  have d: "stable_point s \<longrightarrow> BI2 s \<and> BI2 (watchForKey c key s)"
    by (simp add: stable_point_BI2 BI2_watchForKey)
  from a b c d show ?thesis by blast
qed

theorem watchForKey_idempotent_witness:
  "key_a' \<noteq> key_a \<and> ptr key_a' = ptr key_a \<and>
   watchForKey 1 key_a' (watchForKey 1 key_a world0) = watchForKey 1 key_a world0 \<and>
   watched_keys (client_of (watchForKey 1 key_a' (watchForKey 1 key_a world0)) 1) =
     [\<lparr>wk_key = key_a, wk_db = 0\<rparr>] \<and>
   watchers (watchForKey 1 key_a' (watchForKey 1 key_a world0)) 0 ''a'' = [1] \<and>
   stable_point (watchForKey 1 key_a world0) \<and> BI2 (watchForKey 1 key_a world0)"
proof -
  have ne: "key_a' \<noteq> key_a" and pe: "ptr key_a' = ptr key_a"
    by (simp_all add: key_a_def key_a'_def)
  have "no_watches world0"
    by (simp add: no_watches_def world0_def idle_client_def)
  then have sp0: "stable_point world0"
    by (rule sp_init)
  then have sp: "stable_point (watchForKey 1 key_a world0)"
    by (rule sp_watch)
  note t = watchForKey_idempotent [where s = world0 and c = 1 and key = key_a and key' = key_a']
  from t pe have twice: "watchForKey 1 key_a' (watchForKey 1 key_a world0) = watchForKey 1 key_a world0"
    by blast
  from t sp0 have bi2: "BI2 (watchForKey 1 key_a world0)"
    by blast
  have wl: "watched_keys (client_of (watchForKey 1 key_a world0) 1) = [\<lparr>wk_key = key_a, wk_db = 0\<rparr>]"
    by (simp add: watched_keys_watchForKey world0_def idle_client_def)
  have ws: "watchers (watchForKey 1 key_a world0) 0 ''a'' = [1]"
    by (simp add: watchers_def watchForKey_def Let_def upd_client_def upd_db_def dictFetchValue_def
        dictAdd_def dictSetList_def world0_def idle_client_def key_a_def)
  from ne pe twice wl ws sp bi2 show ?thesis
    by simp
qed


text \<open>
  C3, as the claim states it, fails in its last part: a touch between WATCH and MULTI
  does not always make the following EXEC return the null batch. Here client 0 sends
  \<open>WATCH a\<close>, the key is touched, the client enters MULTI, one command is rejected with
  a queue-time error and \<open>SET a 1\<close> is queued: \<^verbatim>\<open>CLIENT_DIRTY_CAS\<close> is still set, but so
  is \<^verbatim>\<open>CLIENT_DIRTY_EXEC\<close>, which \<^verbatim>\<open>execCommand\<close> tests first, and the reply to EXEC is the
  abort error.
\<close>

theorem dirty_cas_null_batch_counterexample:
  "watch_inv world0 \<and> \<not> in_multi (client_of world0 0) \<and>
   key_a \<in> set (tl watch_a) \<and> ptr key_a' = ptr key_a \<and>
   in_multi (client_of world_tainted_rejected 0) \<and>
   dirty_cas (client_of world_tainted_rejected 0) \<and>
   (\<exists>s'. execCommand call_nothing 0 world_tainted_rejected = Some (Inr s') \<and>
         reply (client_of s' 0) = [shared_ok, shared_ok, shared_execaborterr])"
proof -
  have pre: "\<not> in_multi (client_of world0 0)" "key_a \<in> set (tl watch_a)"
      "ptr key_a' = ptr key_a"
    by (simp_all add: in_multi_def world0_def idle_client_def watch_a_def key_a_def key_a'_def)
  note inv = tainted_transaction(1) [OF watch_inv_world0 pre, of cmd_watch
      "[Rejected, Queued cmd_set set_a_1]", folded world_tainted_rejected_def]
  note rp = tainted_transaction(3) [OF watch_inv_world0 pre, of cmd_watch
      "[Rejected, Queued cmd_set set_a_1]", folded world_tainted_rejected_def]
  note bits = tainted_bits [OF watch_inv_world0 pre, of cmd_watch
      "[Rejected, Queued cmd_set set_a_1]", folded world_tainted_rejected_def]
  have de: "dirty_exec (client_of world_tainted_rejected 0)"
    by (simp add: bits(3))
  have r0: "reply (client_of world_tainted_rejected 0) = [shared_ok, shared_ok]"
    by (simp add: rp) (simp add: world0_def idle_client_def)
  from exec_abort_exit [OF inv, of 0 shared_execaborterr] obtain s' where
    s': "map_sum id (handle_monitor 0)
           (discardTransaction 0 (addReply 0 shared_execaborterr world_tainted_rejected)) = Inr s'"
      "reply (client_of s' 0) = reply (client_of world_tainted_rejected 0) @ [shared_execaborterr]"
    by blast
  have "execCommand call_nothing 0 world_tainted_rejected = Some (Inr s') \<and>
      reply (client_of s' 0) = [shared_ok, shared_ok, shared_execaborterr]"
    using exec_dirty_eq [OF bits(1), of call_nothing] de s' by (simp add: r0)
  with watch_inv_world0 pre bits(1,2) show ?thesis by blast
qed

text \<open>
  C3, amended. At a stable point: \<^verbatim>\<open>multiCommand\<close> leaves \<^verbatim>\<open>CLIENT_DIRTY_CAS\<close> of every
  client as it is, and so do \<^verbatim>\<open>queueMultiCommand\<close>, \<^verbatim>\<open>flagTransaction\<close>, \<^verbatim>\<open>watchCommand\<close>,
  \<^verbatim>\<open>unwatchAllKeys\<close> on its own, and EXEC and DISCARD outside MULTI (which reply with an
  error); \<^verbatim>\<open>touchWatchedKey\<close> and \<^verbatim>\<open>touchWatchedKeysOnFlush\<close> keep a bit that is set. The
  bit of the invoking client is cleared by \<^verbatim>\<open>unwatchCommand\<close>, by DISCARD in MULTI, by
  EXEC in MULTI (on each of its three paths) and by the disconnect of the client, which
  run \<^verbatim>\<open>discardTransaction\<close>; UNWATCH and DISCARD leave every other client as it is.
  Consequently, when a client outside MULTI sends WATCH with a key among its arguments,
  the key is touched, and the client then enters MULTI and commands are queued or
  rejected, the bit is still set and EXEC cancels the transaction for every executor:
  the reply is the null multi-bulk, unless \<^verbatim>\<open>CLIENT_DIRTY_EXEC\<close> is set as well (it was
  set before, or a command was rejected), in which case it is the abort error.
\<close>

theorem dirty_cas_survives_multi:
  assumes "watch_inv s"
  shows "dirty_cas (client_of (multiCommand c s) c') = dirty_cas (client_of s c') \<and>
         dirty_cas (client_of (queueMultiCommand c s) c') = dirty_cas (client_of s c') \<and>
         dirty_cas (client_of (flagTransaction c s) c') = dirty_cas (client_of s c') \<and>
         dirty_cas (client_of (watchCommand c s) c') = dirty_cas (client_of s c') \<and>
         (\<exists>s'. unwatchAllKeys c s = Inr s' \<and>
               dirty_cas (client_of s' c') = dirty_cas (client_of s c')) \<and>
         (\<not> in_multi (client_of s c) \<longrightarrow>
            (\<exists>s'. execCommand call c s = Some (Inr s') \<and>
                  dirty_cas (client_of s' c') = dirty_cas (client_of s c')) \<and>
            (\<exists>s'. discardCommand c s = Inr s' \<and>
                  dirty_cas (client_of s' c') = dirty_cas (client_of s c'))) \<and>
         (dirty_cas (client_of s c') \<longrightarrow>
            dirty_cas (client_of (touchWatchedKey d k s) c') \<and>
            dirty_cas (client_of (touchWatchedKeysOnFlush dbid s) c')) \<and>
         (\<exists>s'. unwatchCommand c s = Inr s' \<and> \<not> dirty_cas (client_of s' c) \<and>
               (\<forall>c'. c' \<noteq> c \<longrightarrow> client_of s' c' = client_of s c')) \<and>
         (\<exists>s'. discardTransaction c s = Inr s' \<and> \<not> dirty_cas (client_of s' c)) \<and>
         (in_multi (client_of s c) \<longrightarrow>
            (\<exists>s'. discardCommand c s = Inr s' \<and> \<not> dirty_cas (client_of s' c) \<and>
                  (\<forall>c'. c' \<noteq> c \<longrightarrow> client_of s' c' = client_of s c'))) \<and>
         (in_multi (client_of s c) \<and> call_frame call c \<longrightarrow>
            (\<exists>s'. execCommand call c s = Some (Inr s') \<and> \<not> dirty_cas (client_of s' c))) \<and>
         (\<exists>s'. clientDisconnect c s = Inr s' \<and> \<not> dirty_cas (client_of s' c)) \<and>
         (\<not> in_multi (client_of s c) \<and> key \<in> set (tl args) \<and> ptr key' = ptr key \<longrightarrow>
            in_multi (client_of (touched_before_multi c rc args key' evs s) c) \<and>
            dirty_cas (client_of (touched_before_multi c rc args key' evs s) c) \<and>
            dirty_exec (client_of (touched_before_multi c rc args key' evs s) c) =
              (dirty_exec (client_of s c) \<or> Rejected \<in> set evs) \<and>
            (\<exists>s'. (\<forall>call. execCommand call c (touched_before_multi c rc args key' evs s) =
                              Some (Inr s')) \<and>
                  reply (client_of s' c) =
                    reply (client_of (touched_before_multi c rc args key' evs s) c) @
                      [if dirty_exec (client_of s c) \<or> Rejected \<in> set evs
                       then shared_execaborterr else shared_nullmultibulk] \<and>
                  tx_terminated c s'))"
proof -
  have a: "dirty_cas (client_of (multiCommand c s) c') = dirty_cas (client_of s c')"
    by (rule dirty_cas_multiCommand)
  have b: "dirty_cas (client_of (queueMultiCommand c s) c') = dirty_cas (client_of s c')"
    by (simp add: dirty_cas_def)
  have c: "dirty_cas (client_of (flagTransaction c s) c') = dirty_cas (client_of s c')"
    by (rule dirty_cas_flagTransaction)
  have d: "dirty_cas (client_of (watchCommand c s) c') = dirty_cas (client_of s c')"
    by (simp add: dirty_cas_def watchCommand_flags)
  have e: "\<exists>s'. unwatchAllKeys c s = Inr s' \<and>
      dirty_cas (client_of s' c') = dirty_cas (client_of s c')"
    using unwatchAllKeys_keeps_flags [OF assms, of c c'] by (auto simp: dirty_cas_def)
  have f: "\<not> in_multi (client_of s c) \<longrightarrow>
            (\<exists>s'. execCommand call c s = Some (Inr s') \<and>
                  dirty_cas (client_of s' c') = dirty_cas (client_of s c')) \<and>
            (\<exists>s'. discardCommand c s = Inr s' \<and>
                  dirty_cas (client_of s' c') = dirty_cas (client_of s c'))"
    by (simp add: in_multi_def execCommand_def discardCommand_def addReplyError_def dirty_cas_def)
  have g: "dirty_cas (client_of s c') \<longrightarrow>
            dirty_cas (client_of (touchWatchedKey d k s) c') \<and>
            dirty_cas (client_of (touchWatchedKeysOnFlush dbid s) c')"
    by (simp add: dirty_cas_touch dirty_cas_flush)
  have h: "\<exists>s'. unwatchCommand c s = Inr s' \<and> \<not> dirty_cas (client_of s' c) \<and>
               (\<forall>c'. c' \<noteq> c \<longrightarrow> client_of s' c' = client_of s c')"
    by (rule unwatchCommand_effect [OF assms])
  have i: "\<exists>s'. discardTransaction c s = Inr s' \<and> \<not> dirty_cas (client_of s' c)"
    by (rule discardTransaction_clears [OF assms])
  have j: "in_multi (client_of s c) \<longrightarrow>
            (\<exists>s'. discardCommand c s = Inr s' \<and> \<not> dirty_cas (client_of s' c) \<and>
                  (\<forall>c'. c' \<noteq> c \<longrightarrow> client_of s' c' = client_of s c'))"
    using discardCommand_in_multi [OF assms, of c] by (auto simp: tx_terminated_def)
  have k: "in_multi (client_of s c) \<and> call_frame call c \<longrightarrow>
            (\<exists>s'. execCommand call c s = Some (Inr s') \<and> \<not> dirty_cas (client_of s' c))"
    using exec_in_multi_clears [OF assms, of call c] by auto
  have l: "\<exists>s'. clientDisconnect c s = Inr s' \<and> \<not> dirty_cas (client_of s' c)"
    using clientDisconnect_effect [OF assms, of c] by (auto simp: tx_terminated_def)
  have m: "\<not> in_multi (client_of s c) \<and> key \<in> set (tl args) \<and> ptr key' = ptr key \<longrightarrow>
            in_multi (client_of (touched_before_multi c rc args key' evs s) c) \<and>
            dirty_cas (client_of (touched_before_multi c rc args key' evs s) c) \<and>
            dirty_exec (client_of (touched_before_multi c rc args key' evs s) c) =
              (dirty_exec (client_of s c) \<or> Rejected \<in> set evs) \<and>
            (\<exists>s'. (\<forall>call. execCommand call c (touched_before_multi c rc args key' evs s) =
                              Some (Inr s')) \<and>
                  reply (client_of s' c) =
                    reply (client_of (touched_before_multi c rc args key' evs s) c) @
                      [if dirty_exec (client_of s c) \<or> Rejected \<in> set evs
                       then shared_execaborterr else shared_nullmultibulk] \<and>
                  tx_terminated c s')"
  proof
    assume pre: "\<not> in_multi (client_of s c) \<and> key \<in> set (tl args) \<and> ptr key' = ptr key"
    let ?t = "touched_before_multi c rc args key' evs s"
    let ?r = "if dirty_exec (client_of ?t c) then shared_execaborterr else shared_nullmultibulk"
    from pre have nm: "\<not> in_multi (client_of s c)" and key: "key \<in> set (tl args)"
      and pk: "ptr key' = ptr key"
      by simp_all
    note inv = tainted_transaction(1) [OF assms nm key pk, of rc evs]
    note bits = tainted_bits [OF assms nm key pk, of rc evs]
    from exec_abort_exit [OF inv, of c ?r] obtain s' where
      s': "map_sum id (handle_monitor c) (discardTransaction c (addReply c ?r ?t)) = Inr s'"
        "tx_terminated c s'"
        "reply (client_of s' c) = reply (client_of ?t c) @ [?r]"
      by blast
    have "execCommand call c ?t = Some (Inr s')" for call
      using exec_dirty_eq [OF bits(1), of call] bits(2) s'(1) by simp
    with bits s'(2,3) show "in_multi (client_of ?t c) \<and> dirty_cas (client_of ?t c) \<and>
        dirty_exec (client_of ?t c) = (dirty_exec (client_of s c) \<or> Rejected \<in> set evs) \<and>
        (\<exists>s'. (\<forall>call. execCommand call c ?t = Some (Inr s')) \<and>
              reply (client_of s' c) = reply (client_of ?t c) @
                [if dirty_exec (client_of s c) \<or> Rejected \<in> set evs
                 then shared_execaborterr else shared_nullmultibulk] \<and>
              tx_terminated c s')"
      by auto
  qed
  from a b c d e f g h i j k l m show ?thesis by blast
qed

theorem dirty_cas_survives_multi_witness:
  "watch_inv world0 \<and> \<not> in_multi (client_of world0 0) \<and>
   key_a \<in> set (tl watch_a) \<and> ptr key_a' = ptr key_a \<and>
   in_multi (client_of world_tainted 0) \<and> dirty_cas (client_of world_tainted 0) \<and>
   \<not> dirty_exec (client_of world_tainted 0) \<and>
   (\<exists>s'. execCommand call_nothing 0 world_tainted = Some (Inr s') \<and>
         reply (client_of s' 0) = [shared_ok, shared_ok, shared_nullmultibulk] \<and>
         tx_terminated 0 s') \<and>
   watch_inv world_dirty_cas \<and> in_multi (client_of world_dirty_cas 0) \<and>
   dirty_cas (client_of world_dirty_cas 0) \<and> call_frame call_nothing 0 \<and>
   dirty_cas (client_of (multiCommand 0 world_dirty_cas) 0) \<and>
   dirty_cas (client_of (touchWatchedKey 0 key_a world_dirty_cas) 0) \<and>
   (\<exists>s'. discardCommand 0 world_dirty_cas = Inr s' \<and> \<not> dirty_cas (client_of s' 0)) \<and>
   (\<exists>s'. execCommand call_nothing 0 world_dirty_cas = Some (Inr s') \<and>
         \<not> dirty_cas (client_of s' 0))"
proof -
  have pre: "\<not> in_multi (client_of world0 0)" "key_a \<in> set (tl watch_a)"
      "ptr key_a' = ptr key_a"
    by (simp_all add: in_multi_def world0_def idle_client_def watch_a_def key_a_def key_a'_def)
  have ne: "\<not> dirty_exec (client_of world0 0)" and r0: "reply (client_of world0 0) = []"
    by (simp_all add: dirty_exec_def world0_def idle_client_def)
  note t0 = dirty_cas_survives_multi [OF watch_inv_world0, where c = 0 and key = key_a
      and key' = key_a' and args = watch_a and rc = cmd_watch
      and evs = "[Queued cmd_set set_a_1]", folded world_tainted_def]
  have rt: "reply (client_of world_tainted 0) = [shared_ok, shared_ok]"
    unfolding world_tainted_def
    by (simp add: tainted_transaction(3) [OF watch_inv_world0 pre] r0)
  from t0 pre ne have "in_multi (client_of world_tainted 0) \<and>
      dirty_cas (client_of world_tainted 0) \<and> \<not> dirty_exec (client_of world_tainted 0) \<and>
      (\<exists>s'. (\<forall>call. execCommand call 0 world_tainted = Some (Inr s')) \<and>
            reply (client_of s' 0) = reply (client_of world_tainted 0) @ [shared_nullmultibulk] \<and>
            tx_terminated 0 s')"
    by simp
  then have first: "in_multi (client_of world_tainted 0) \<and>
      dirty_cas (client_of world_tainted 0) \<and> \<not> dirty_exec (client_of world_tainted 0) \<and>
      (\<exists>s'. execCommand call_nothing 0 world_tainted = Some (Inr s') \<and>
            reply (client_of s' 0) = [shared_ok, shared_ok, shared_nullmultibulk] \<and>
            tx_terminated 0 s')"
    unfolding rt by auto
  note b = world_dirty_bits and f = world_dirty_facts
  note t1 = dirty_cas_survives_multi [OF f(2), where c = 0 and c' = 0 and call = call_nothing
      and d = 0 and k = key_a]
  from t1 b(1,2) frame_nothing(1) have second:
    "dirty_cas (client_of (multiCommand 0 world_dirty_cas) 0) \<and>
     dirty_cas (client_of (touchWatchedKey 0 key_a world_dirty_cas) 0) \<and>
     (\<exists>s'. discardCommand 0 world_dirty_cas = Inr s' \<and> \<not> dirty_cas (client_of s' 0)) \<and>
     (\<exists>s'. execCommand call_nothing 0 world_dirty_cas = Some (Inr s') \<and>
           \<not> dirty_cas (client_of s' 0))"
    by blast
  from watch_inv_world0 pre first f(2) b(1,2) frame_nothing(1) second show ?thesis
    by blast
qed

end
